theory Spec2Isabelle
  imports Complex_Main
begin

text \<open>
  A model of the audio looper: the analysis functions of \<open>audio-analyzer.js\<close> (the class
  \<open>AudioAnalyzer\<close>, run on the caller's thread) and of \<open>analyzer-worker.js\<close> (run in a worker),
  the recorder's \<open>applyFades\<close>, and the layer, mixing and history handlers of
  \<open>AudioLooperApp\<close>. Where both files define a function of the same name, the model's names
  end in \<open>_analyzer\<close> and \<open>_worker\<close>.
\<close>

section \<open>JavaScript numbers\<close>

text \<open>
  Samples, energies and magnitudes are IEEE doubles in the source. The model keeps the
  finite values as (exact) reals and adds the three special values that the analysis
  code can produce by dividing by zero: \<open>0 / 0\<close> is \<open>NaN\<close>, \<open>x / 0\<close> is an infinity.
  Rounding of finite results is not modelled.
\<close>

datatype jsnum = Fin real | PosInf | NegInf | NaN

text \<open>\<open>x / y\<close> for two finite operands; a zero divisor is always \<open>+0\<close> in the source
  (a counter, a lag, a maximum of non-negative magnitudes).\<close>

definition js_div :: "real \<Rightarrow> real \<Rightarrow> jsnum" where
  "js_div x y =
     (if y \<noteq> 0 then Fin (x / y)
      else if x = 0 then NaN
      else if 0 < x then PosInf else NegInf)"

text \<open>\<open>a > b\<close>: every comparison with \<open>NaN\<close> is false.\<close>

fun js_gt :: "jsnum \<Rightarrow> jsnum \<Rightarrow> bool" where
  "js_gt NaN _ = False"
| "js_gt _ NaN = False"
| "js_gt (Fin a) (Fin b) = (b < a)"
| "js_gt PosInf PosInf = False"
| "js_gt PosInf _ = True"
| "js_gt _ PosInf = False"
| "js_gt NegInf _ = False"
| "js_gt (Fin a) NegInf = True"

text \<open>\<open>Math.round\<close>: the nearest integer, a tie going up; the special values stay.\<close>

fun Math_round :: "jsnum \<Rightarrow> jsnum" where
  "Math_round (Fin x) = Fin (of_int \<lfloor>x + 1 / 2\<rfloor>)"
| "Math_round v = v"

fun Math_min :: "jsnum \<Rightarrow> jsnum \<Rightarrow> jsnum" where
  "Math_min NaN _ = NaN"
| "Math_min _ NaN = NaN"
| "Math_min a b = (if js_gt a b then b else a)"

fun Math_max :: "jsnum \<Rightarrow> jsnum \<Rightarrow> jsnum" where
  "Math_max NaN _ = NaN"
| "Math_max _ NaN = NaN"
| "Math_max a b = (if js_gt b a then b else a)"

section \<open>Tempo detection\<close>

text \<open>The inner loop of both envelope extractors: the sum of \<open>|audioData[i + j]|\<close> over
  \<open>j < hopSize\<close> with \<open>i + j < audioData.length\<close>.\<close>

definition hop_energy :: "real list \<Rightarrow> nat \<Rightarrow> nat \<Rightarrow> real" where
  "hop_energy audioData i hopSize = sum_list (map abs (take hopSize (drop i audioData)))"

text \<open>\<open>AudioAnalyzer.detectTempo\<close> (audio-analyzer.js), the envelope loop: hop size 512,
  every hop divided by \<open>hopSize\<close>.\<close>

function energyEnvelope_analyzer :: "real list \<Rightarrow> nat \<Rightarrow> real list" where
  "energyEnvelope_analyzer audioData i =
     (if i < length audioData
      then (hop_energy audioData i 512 / 512) # energyEnvelope_analyzer audioData (i + 512)
      else [])"
  by pat_completeness auto
termination
  by (relation "measure (\<lambda>(audioData, i). length audioData - i)") auto

declare energyEnvelope_analyzer.simps [simp del]

text \<open>\<open>detectTempo\<close> of analyzer-worker.js, the envelope loop: hop size 2048, every hop
  divided by \<open>end - i\<close> with \<open>end = Math.min(i + hopSize, data.length)\<close>.\<close>

function energyEnvelope_worker :: "real list \<Rightarrow> nat \<Rightarrow> real list" where
  "energyEnvelope_worker data i =
     (if i < length data
      then (let end = min (i + 2048) (length data)
            in (hop_energy data i 2048 / real (end - i)) # energyEnvelope_worker data (i + 2048))
      else [])"
  by pat_completeness auto
termination
  by (relation "measure (\<lambda>(data, i). length data - i)") auto

declare energyEnvelope_worker.simps [simp del]

text \<open>\<open>Math.floor(60 * (sampleRate / hopSize) / bpm)\<close>.\<close>

definition lagOf :: "nat \<Rightarrow> nat \<Rightarrow> nat \<Rightarrow> nat" where
  "lagOf sampleRate hopSize bpm = nat \<lfloor>60 * (real sampleRate / real hopSize) / real bpm\<rfloor>"

text \<open>The indices \<open>i\<close> of the correlation loop: \<open>i = 0; i < length - lag; i += step\<close>.
  The bound is negative in the source when the lag exceeds the envelope; the loop body
  then never runs, as with the empty range here.\<close>

definition corr_indices :: "nat \<Rightarrow> nat \<Rightarrow> nat \<Rightarrow> nat list" where
  "corr_indices len lag step = filter (\<lambda>i. i mod step = 0) [0..<len - lag]"

text \<open>\<open>correlation /= count\<close> after the loop: \<open>0 / 0 = NaN\<close> when no pair was summed.\<close>

definition correlation :: "real list \<Rightarrow> nat \<Rightarrow> nat \<Rightarrow> jsnum" where
  "correlation env lag step =
     (let idx = corr_indices (length env) lag step
      in js_div (sum_list (map (\<lambda>i. env ! i * env ! (i + lag)) idx)) (real (length idx)))"

text \<open>One pass of the lag loop's body on \<open>(bestCorr, bestLag)\<close>.\<close>

definition consider_lag :: "real list \<Rightarrow> nat \<Rightarrow> nat \<Rightarrow> jsnum \<times> nat \<Rightarrow> jsnum \<times> nat" where
  "consider_lag env step lag best =
     (let c = correlation env lag step
      in if js_gt c (fst best) then (c, lag) else best)"

text \<open>audio-analyzer.js: \<open>for (lag = minLag; lag < maxLag; lag++)\<close>, all pairs.\<close>

function lagLoop_analyzer :: "real list \<Rightarrow> nat \<Rightarrow> nat \<Rightarrow> jsnum \<times> nat \<Rightarrow> jsnum \<times> nat" where
  "lagLoop_analyzer env lag maxLag best =
     (if lag < maxLag
      then lagLoop_analyzer env (lag + 1) maxLag (consider_lag env 1 lag best)
      else best)"
  by pat_completeness auto
termination
  by (relation "measure (\<lambda>(env, lag, maxLag, best). maxLag - lag)") auto

declare lagLoop_analyzer.simps [simp del]

text \<open>analyzer-worker.js: \<open>for (lag = minLag; lag < maxLag; lag += 5)\<close>, every other pair.\<close>

function lagLoop_worker :: "real list \<Rightarrow> nat \<Rightarrow> nat \<Rightarrow> jsnum \<times> nat \<Rightarrow> jsnum \<times> nat" where
  "lagLoop_worker env lag maxLag best =
     (if lag < maxLag
      then lagLoop_worker env (lag + 5) maxLag (consider_lag env 2 lag best)
      else best)"
  by pat_completeness auto
termination
  by (relation "measure (\<lambda>(env, lag, maxLag, best). maxLag - lag)") auto

declare lagLoop_worker.simps [simp del]

text \<open>The last two lines of both detectors:
  \<open>bpm = Math.round(60 * (sampleRate / hopSize) / bestLag)\<close>, clamped to 60..180.\<close>

definition bpmOfLag :: "nat \<Rightarrow> nat \<Rightarrow> nat \<Rightarrow> jsnum" where
  "bpmOfLag sampleRate hopSize bestLag =
     (let bpm = Math_round (js_div (60 * (real sampleRate / real hopSize)) (real bestLag))
      in Math_max (Fin 60) (Math_min (Fin 180) bpm))"

definition detectTempo_analyzer :: "real list \<Rightarrow> nat \<Rightarrow> jsnum" where
  "detectTempo_analyzer audioData sampleRate =
     (let energyEnvelope = energyEnvelope_analyzer audioData 0;
          minLag = lagOf sampleRate 512 180;
          maxLag = lagOf sampleRate 512 60;
          best = lagLoop_analyzer energyEnvelope minLag maxLag (NegInf, 0)
      in bpmOfLag sampleRate 512 (snd best))"

text \<open>The worker looks at the first ten seconds only:
  \<open>data = audioData.slice(0, Math.min(audioData.length, 10 * sampleRate))\<close>.\<close>

definition detectTempo_worker :: "real list \<Rightarrow> nat \<Rightarrow> jsnum" where
  "detectTempo_worker audioData sampleRate =
     (let maxSamples = min (length audioData) (10 * sampleRate);
          data = take maxSamples audioData;
          energyEnvelope = energyEnvelope_worker data 0;
          minLag = lagOf sampleRate 2048 180;
          maxLag = lagOf sampleRate 2048 60;
          best = lagLoop_worker energyEnvelope minLag maxLag (NegInf, 0)
      in bpmOfLag sampleRate 2048 (snd best))"

section \<open>Spectrum and chromagram\<close>

text \<open>\<open>fft\<close> (the same text in audio-analyzer.js and analyzer-worker.js): the magnitude of
  every bin of the discrete Fourier transform, \<open>angle = -2 * Math.PI * k * i / n\<close>.\<close>

definition fft :: "real list \<Rightarrow> real list" where
  "fft signal =
     (let n = length signal
      in map (\<lambda>k.
           let re = sum_list (map (\<lambda>i. signal ! i * cos (- 2 * pi * real k * real i / real n)) [0..<n]);
               im = sum_list (map (\<lambda>i. signal ! i * sin (- 2 * pi * real k * real i / real n)) [0..<n])
           in sqrt (re * re + im * im)) [0..<n])"

text \<open>\<open>fftFast\<close> (analyzer-worker.js): the first \<open>Math.floor(n / 2)\<close> bins only,
  \<open>angle = angleStep * i\<close> with \<open>angleStep = -2 * Math.PI * k / n\<close>.\<close>

definition fftFast :: "real list \<Rightarrow> real list" where
  "fftFast signal =
     (let n = length signal
      in map (\<lambda>k.
           let angleStep = - 2 * pi * real k / real n;
               re = sum_list (map (\<lambda>i. signal ! i * cos (angleStep * real i)) [0..<n]);
               im = sum_list (map (\<lambda>i. signal ! i * sin (angleStep * real i)) [0..<n])
           in sqrt (re * re + im * im)) [0..<n div 2])"

definition freqToPitch :: "real \<Rightarrow> real" where
  "freqToPitch freq = 12 * log 2 (freq / 440) + 57"

text \<open>JavaScript's \<open>%\<close> on integers: the remainder has the sign of the dividend.\<close>

definition js_rem :: "int \<Rightarrow> int \<Rightarrow> int" where
  "js_rem a b = sgn a * (\<bar>a\<bar> mod \<bar>b\<bar>)"

text \<open>The body of the bin loop: \<open>freq = bin * sampleRate / fftSize\<close>, bins outside
  80..2000 Hz skipped, \<open>pitchClass = Math.round(pitch) % 12\<close>, and the guarded
  \<open>chromagram[pitchClass] += spectrum[bin]\<close>.\<close>

definition add_bin :: "real list \<Rightarrow> nat \<Rightarrow> nat \<Rightarrow> nat \<Rightarrow> real list \<Rightarrow> real list" where
  "add_bin spectrum sampleRate fftSize bin chromagram =
     (let freq = real bin * real sampleRate / real fftSize
      in if freq < 80 \<or> freq > 2000 then chromagram
         else let pitch = freqToPitch freq;
                  pitchClass = js_rem \<lfloor>pitch + 1 / 2\<rfloor> 12
              in if 0 \<le> pitchClass \<and> pitchClass < 12
                 then chromagram[nat pitchClass := chromagram ! nat pitchClass + spectrum ! bin]
                 else chromagram)"

text \<open>\<open>for (bin = 1; bin < spectrum.length / 2; bin++)\<close> over one frame.\<close>

definition add_frame :: "real list \<Rightarrow> nat \<Rightarrow> nat \<Rightarrow> real list \<Rightarrow> real list" where
  "add_frame spectrum sampleRate fftSize chromagram =
     fold (add_bin spectrum sampleRate fftSize)
       (filter (\<lambda>bin. 2 * bin < length spectrum) [1..<length spectrum]) chromagram"

text \<open>\<open>calculateChromagram\<close>, the frame loop:
  \<open>for (i = 0; i < audioData.length - fftSize; i += fftSize / 2)\<close> with \<open>fftSize = 4096\<close>.\<close>

function chromagramFrames :: "real list \<Rightarrow> nat \<Rightarrow> nat \<Rightarrow> real list \<Rightarrow> real list" where
  "chromagramFrames audioData sampleRate i chromagram =
     (if i + 4096 < length audioData
      then chromagramFrames audioData sampleRate (i + 2048)
             (add_frame (fft (take 4096 (drop i audioData))) sampleRate 4096 chromagram)
      else chromagram)"
  by pat_completeness auto
termination
  by (relation "measure (\<lambda>(audioData, sampleRate, i, chromagram). length audioData - i)") auto

declare chromagramFrames.simps [simp del]

text \<open>\<open>calculateChromagram\<close> (audio-analyzer.js, and the copy in analyzer-worker.js):
  \<open>max = Math.max(...chromagram); return chromagram.map(x => x / max)\<close>.
  The array always has its 12 slots, so the maximum is that of a non-empty set.\<close>

definition calculateChromagram :: "real list \<Rightarrow> nat \<Rightarrow> jsnum list" where
  "calculateChromagram audioData sampleRate =
     (let chromagram = chromagramFrames audioData sampleRate 0 (replicate 12 0);
          mx = Max (set chromagram)
      in map (\<lambda>x. js_div x mx) chromagram)"

text \<open>\<open>calculateChromagramFast\<close> (analyzer-worker.js), the frame loop:
  \<open>for (i = 0; i < maxSamples - fftSize; i += hopSize)\<close> with \<open>fftSize = hopSize = 2048\<close>.\<close>

function chromagramFramesFast :: "real list \<Rightarrow> nat \<Rightarrow> nat \<Rightarrow> nat \<Rightarrow> real list \<Rightarrow> real list" where
  "chromagramFramesFast audioData sampleRate maxSamples i chromagram =
     (if i + 2048 < maxSamples
      then chromagramFramesFast audioData sampleRate maxSamples (i + 2048)
             (add_frame (fftFast (take 2048 (drop i audioData))) sampleRate 2048 chromagram)
      else chromagram)"
  by pat_completeness auto
termination
  by (relation "measure (\<lambda>(audioData, sampleRate, maxSamples, i, chromagram). maxSamples - i)") auto

declare chromagramFramesFast.simps [simp del]

text \<open>\<open>return max > 0 ? chromagram.map(x => x / max) : chromagram\<close>.\<close>

definition calculateChromagramFast :: "real list \<Rightarrow> nat \<Rightarrow> jsnum list" where
  "calculateChromagramFast audioData sampleRate =
     (let maxSamples = min (length audioData) (2 * sampleRate);
          chromagram = chromagramFramesFast audioData sampleRate maxSamples 0 (replicate 12 0);
          mx = Max (set chromagram)
      in if 0 < mx then map (\<lambda>x. js_div x mx) chromagram else map Fin chromagram)"

section \<open>Chord identification\<close>

text \<open>\<open>a - b\<close> on numbers, as the comparator \<open>(a, b) => b.val - a.val\<close> computes it.\<close>

fun js_sub :: "jsnum \<Rightarrow> jsnum \<Rightarrow> jsnum" where
  "js_sub NaN _ = NaN"
| "js_sub _ NaN = NaN"
| "js_sub (Fin a) (Fin b) = Fin (a - b)"
| "js_sub (Fin a) PosInf = NegInf"
| "js_sub (Fin a) NegInf = PosInf"
| "js_sub PosInf PosInf = NaN"
| "js_sub PosInf _ = PosInf"
| "js_sub NegInf NegInf = NaN"
| "js_sub NegInf _ = NegInf"

text \<open>Whether a comparator's result is positive (\<open>NaN\<close> counts as \<open>+0\<close> in
  \<open>Array.prototype.sort\<close>).\<close>

fun js_positive :: "jsnum \<Rightarrow> bool" where
  "js_positive (Fin r) = (0 < r)"
| "js_positive PosInf = True"
| "js_positive _ = False"

text \<open>\<open>Array.prototype.sort(comparefn)\<close>: a stable sort. An element moves behind another
  one only when the comparator says it is greater; for a consistent comparator the stable
  result is unique, and this insertion sort computes it.\<close>

fun insert_by :: "('a \<Rightarrow> 'a \<Rightarrow> jsnum) \<Rightarrow> 'a \<Rightarrow> 'a list \<Rightarrow> 'a list" where
  "insert_by cmp x [] = [x]"
| "insert_by cmp x (y # ys) =
     (if js_positive (cmp x y) then y # insert_by cmp x ys else x # y # ys)"

definition sort_by :: "('a \<Rightarrow> 'a \<Rightarrow> jsnum) \<Rightarrow> 'a list \<Rightarrow> 'a list" where
  "sort_by cmp xs = foldr (insert_by cmp) xs []"

text \<open>On finite values the comparator \<open>(a, b) => b.val - a.val\<close> orders by this key
  (used in the proofs only).\<close>

definition energy_key :: "jsnum \<times> nat \<Rightarrow> real" where
  "energy_key p = (case fst p of Fin v \<Rightarrow> - v | _ \<Rightarrow> 0)"

definition notes_table :: "string list" where
  "notes_table =
     [''C'', ''C#'', ''D'', ''D#'', ''E'', ''F'', ''F#'', ''G'', ''G#'', ''A'', ''A#'', ''B'']"

text \<open>\<open>notes[root]\<close> (the table is called \<open>notes\<close> in the source): \<open>undefined\<close> outside
  the table, which prints as that word.\<close>

definition noteName :: "nat \<Rightarrow> string" where
  "noteName rootPc = (if rootPc < length notes_table then notes_table ! rootPc else ''undefined'')"

text \<open>The chain of pattern checks of \<open>identifyChord\<close>, in the source's order:
  \<open>intervals.includes(k)\<close> is list membership, the first pattern that matches decides.\<close>

definition matchPatterns :: "nat \<Rightarrow> int list \<Rightarrow> string" where
  "matchPatterns rootPc intervals =
     (if 0 \<in> set intervals \<and> 4 \<in> set intervals \<and> 7 \<in> set intervals
        then noteName rootPc
      else if 0 \<in> set intervals \<and> 3 \<in> set intervals \<and> 7 \<in> set intervals
        then noteName rootPc @ ''m''
      else if 0 \<in> set intervals \<and> 4 \<in> set intervals \<and> 10 \<in> set intervals
        then noteName rootPc @ ''7''
      else if 0 \<in> set intervals \<and> 4 \<in> set intervals \<and> 11 \<in> set intervals
        then noteName rootPc @ ''maj7''
      else if 0 \<in> set intervals \<and> 3 \<in> set intervals \<and> 10 \<in> set intervals
        then noteName rootPc @ ''m7''
      else noteName rootPc)"

text \<open>\<open>identifyChord\<close> (the same text in audio-analyzer.js and analyzer-worker.js).
  \<open>indexed\<close> pairs every value with its index, \<open>top3\<close> are the indices of the first three
  after the descending sort, sorted ascending; \<open>root = top3[0]\<close> and
  \<open>intervals = top3.map(pitch => (pitch - root + 12) % 12)\<close>. The chromagram always has
  its 12 slots, so \<open>top3\<close> is never empty.\<close>

definition identifyChord :: "jsnum list \<Rightarrow> string" where
  "identifyChord chromagram =
     (let indexed = zip chromagram [0..<length chromagram];
          sorted = sort_by (\<lambda>a b. js_sub (fst b) (fst a)) indexed;
          top3 = sort_by (\<lambda>a b. Fin (real a - real b)) (map snd (take 3 sorted))
      in case top3 of
           [] \<Rightarrow> ''undefined''
         | rootPc # _ \<Rightarrow>
             matchPatterns rootPc (map (\<lambda>pitch. js_rem (int pitch - int rootPc + 12) 12) top3))"

section \<open>Chord detection\<close>




text \<open>A chord event. The worker's events carry \<open>timeInSeconds\<close>; the fallback's do not.\<close>

record chord_event =
  time :: string
  timeInSeconds :: "jsnum option"
  chord :: string









section \<open>The two chord paths, window by window\<close>





text \<open>Of every run of adjacent events with the same label, only the first is kept.\<close>

fun collapse_repeats :: "chord_event list \<Rightarrow> chord_event list" where
  "collapse_repeats [] = []"
| "collapse_repeats [e] = [e]"
| "collapse_repeats (e # f # es) =
     (if chord e = chord f then collapse_repeats (e # es) else e # collapse_repeats (f # es))"



section \<open>Audio buffers and the recorder's fades\<close>

text \<open>An \<open>AudioBuffer\<close>: a sample rate and one array of samples per channel. The Web Audio
  interface guarantees at least one channel, all channels of the buffer's \<open>length\<close>.\<close>

record audio_buffer =
  buf_sampleRate :: nat
  buf_channels :: "real list list"

definition numberOfChannels :: "audio_buffer \<Rightarrow> nat" where
  "numberOfChannels b = length (buf_channels b)"

definition buf_length :: "audio_buffer \<Rightarrow> nat" where
  "buf_length b = (case buf_channels b of [] \<Rightarrow> 0 | c # _ \<Rightarrow> length c)"

text \<open>Buffers are objects: the application holds references to them, and
  \<open>getChannelData\<close> hands out the buffer's own sample array. The store is the list of all
  buffers created so far; a reference is a position in it, and the references that the
  application holds always point into the store.\<close>

type_synonym store = "audio_buffer list"
type_synonym bufref = nat

definition alloc :: "store \<Rightarrow> audio_buffer \<Rightarrow> store \<times> bufref" where
  "alloc h b = (h @ [b], length h)"

text \<open>\<open>applyFades\<close> (the recorder): \<open>fadeLength = Math.floor(0.005 * sampleRate)\<close>; on every
  channel \<open>data[i] *= i / fadeLength\<close> for \<open>i < fadeLength\<close>, then
  \<open>data[idx] *= (fadeLength - i) / fadeLength\<close> at \<open>idx = data.length - fadeLength + i\<close>.
  A write outside a \<open>Float32Array\<close> does nothing.\<close>

definition fadeIn :: "nat \<Rightarrow> real list \<Rightarrow> real list" where
  "fadeIn fadeLength data =
     fold (\<lambda>i d. if i < length d then d[i := d ! i * (real i / real fadeLength)] else d)
       [0..<fadeLength] data"

definition fadeOut :: "nat \<Rightarrow> real list \<Rightarrow> real list" where
  "fadeOut fadeLength data =
     fold (\<lambda>i d.
            let idx = int (length d) - int fadeLength + int i
            in if 0 \<le> idx \<and> idx < int (length d)
               then d[nat idx := d ! nat idx * (real (fadeLength - i) / real fadeLength)]
               else d)
       [0..<fadeLength] data"

text \<open>The buffer is changed where it is and the same reference is returned
  (\<open>return audioBuffer\<close>).\<close>

definition applyFades :: "store \<Rightarrow> bufref \<Rightarrow> store \<times> bufref" where
  "applyFades h audioBuffer =
     (let b = h ! audioBuffer;
          fadeLength = nat \<lfloor>(5 / 1000) * real (buf_sampleRate b)\<rfloor>
      in (h[audioBuffer := b\<lparr>buf_channels :=
              map (\<lambda>data. fadeOut fadeLength (fadeIn fadeLength data)) (buf_channels b)\<rparr>],
          audioBuffer))"

section \<open>The looper application: layers, mixing, history\<close>

text \<open>An entry of the undo or redo stack: copies of the three arrays
  (\<open>[...this.layers]\<close> and so on; the buffers themselves are shared).\<close>

record snapshot =
  snap_layers :: "bufref list"
  snap_layerVolumes :: "real list"
  snap_layerMuted :: "bool list"

text \<open>The fields of \<open>AudioLooperApp\<close> that the composition uses, with the store. A stack's
  top is the end of its list (\<open>push\<close>, \<open>pop\<close>); \<open>shift\<close> drops its head.\<close>

record app_state =
  heap :: store
  layers :: "bufref list"
  layerVolumes :: "real list"
  layerMuted :: "bool list"
  undoStack :: "snapshot list"
  redoStack :: "snapshot list"
  loopAudioBuffer :: "bufref option"

text \<open>\<open>mixedData[i] += channelData[i] * volume\<close> for \<open>i < channelData.length\<close>.\<close>

definition add_layer :: "real list \<Rightarrow> real \<Rightarrow> real list \<Rightarrow> real list" where
  "add_layer channelData volume mixedData =
     fold (\<lambda>i m. if i < length m then m[i := m ! i + channelData ! i * volume] else m)
       [0..<length channelData] mixedData"

text \<open>One channel of the mix: \<open>this.layers.forEach((layer, layerIndex) => ...)\<close> on the
  zero-filled channel of the new buffer. A muted layer is skipped; the others add
  their channel \<open>Math.min(channel, layer.numberOfChannels - 1)\<close>.\<close>

definition mixChannel :: "app_state \<Rightarrow> nat \<Rightarrow> nat \<Rightarrow> real list" where
  "mixChannel s channel maxLength =
     fold (\<lambda>layerIndex mixedData.
            if layerIndex < length (layerMuted s) \<and> layerMuted s ! layerIndex then mixedData
            else let layer = heap s ! (layers s ! layerIndex);
                     volume = layerVolumes s ! layerIndex;
                     channelData = buf_channels layer ! min channel (numberOfChannels layer - 1)
                 in add_layer channelData volume mixedData)
       [0..<length (layers s)] (replicate maxLength 0)"

text \<open>What one layer does to a channel of the mix, by its mute flag, channel and volume
  (the body of the \<open>forEach\<close> above, named for the proofs).\<close>

definition layer_step :: "bool \<Rightarrow> real list \<Rightarrow> real \<Rightarrow> real list \<Rightarrow> real list" where
  "layer_step muted channelData volume mixedData =
     (if muted then mixedData else add_layer channelData volume mixedData)"

text \<open>\<open>mixLayers\<close>: \<open>null\<close> without layers, the only layer itself when there is one, and
  otherwise a new buffer of the context's sample rate (44100) with the longest length and
  the largest channel count. The result is the store after the call and the reference
  returned.\<close>

definition mixLayers :: "app_state \<Rightarrow> store \<times> bufref option" where
  "mixLayers s =
     (if length (layers s) = 0 then (heap s, None)
      else if length (layers s) = 1 then (heap s, Some (layers s ! 0))
      else let maxLength = fold (\<lambda>layer m. max m (buf_length (heap s ! layer))) (layers s) 0;
               maxChannels = fold (\<lambda>layer m. max m (numberOfChannels (heap s ! layer))) (layers s) 1;
               mixedBuffer = \<lparr>buf_sampleRate = 44100,
                              buf_channels = map (\<lambda>channel. mixChannel s channel maxLength)
                                               [0..<maxChannels]\<rparr>;
               (h, r) = alloc (heap s) mixedBuffer
           in (h, Some r))"

text \<open>\<open>this.loopAudioBuffer = this.mixLayers()\<close>.\<close>

definition remix :: "app_state \<Rightarrow> app_state" where
  "remix s = (let (h, r) = mixLayers s in s\<lparr>heap := h, loopAudioBuffer := r\<rparr>)"

definition currentSnapshot :: "app_state \<Rightarrow> snapshot" where
  "currentSnapshot s =
     \<lparr>snap_layers = layers s, snap_layerVolumes = layerVolumes s, snap_layerMuted = layerMuted s\<rparr>"

text \<open>\<open>saveStateToUndo\<close> and \<open>saveStateToRedo\<close>: push a copy, and drop the oldest entry once
  there are more than 10.\<close>

definition saveStateToUndo :: "app_state \<Rightarrow> app_state" where
  "saveStateToUndo s =
     (let st = undoStack s @ [currentSnapshot s]
      in s\<lparr>undoStack := (if length st > 10 then tl st else st)\<rparr>)"

definition saveStateToRedo :: "app_state \<Rightarrow> app_state" where
  "saveStateToRedo s =
     (let st = redoStack s @ [currentSnapshot s]
      in s\<lparr>redoStack := (if length st > 10 then tl st else st)\<rparr>)"

text \<open>\<open>handleUndo\<close>: nothing happens on an empty undo stack (a status message is shown);
  otherwise the current state goes to the redo stack and the popped one is restored.\<close>

definition handleUndo :: "app_state \<Rightarrow> app_state" where
  "handleUndo s =
     (if length (undoStack s) = 0 then s
      else let s1 = saveStateToRedo s;
               previousState = last (undoStack s1)
           in remix (s1\<lparr>undoStack := butlast (undoStack s1),
                        layers := snap_layers previousState,
                        layerVolumes := snap_layerVolumes previousState,
                        layerMuted := snap_layerMuted previousState\<rparr>))"

text \<open>\<open>handleOverdub\<close>, the callback run when the recorder has finished: the recorder hands
  over a buffer it has just created.\<close>

definition handleOverdub :: "audio_buffer \<Rightarrow> app_state \<Rightarrow> app_state" where
  "handleOverdub recorded s =
     (let (h0, audioBuffer) = alloc (heap s) recorded;
          s1 = saveStateToUndo (s\<lparr>heap := h0\<rparr>);
          (h1, fadedBuffer) = applyFades (heap s1) audioBuffer
      in remix (s1\<lparr>heap := h1,
                   layers := layers s1 @ [fadedBuffer],
                   layerVolumes := layerVolumes s1 @ [1],
                   layerMuted := layerMuted s1 @ [False],
                   redoStack := []\<rparr>))"

text \<open>\<open>handleRecord\<close> (its completion callback) and \<open>handleFileLoad\<close> start a composition
  from one new buffer; \<open>handleClear\<close> empties it.\<close>

definition startComposition :: "audio_buffer \<Rightarrow> app_state \<Rightarrow> app_state" where
  "startComposition b s =
     (let (h0, audioBuffer) = alloc (heap s) b;
          (h1, faded) = applyFades h0 audioBuffer
      in s\<lparr>heap := h1, layers := [faded], layerVolumes := [1], layerMuted := [False],
           undoStack := [], redoStack := [], loopAudioBuffer := Some faded\<rparr>)"

definition handleRecord :: "audio_buffer \<Rightarrow> app_state \<Rightarrow> app_state" where
  "handleRecord recorded s = startComposition recorded s"

definition handleFileLoad :: "audio_buffer \<Rightarrow> app_state \<Rightarrow> app_state" where
  "handleFileLoad decoded s = startComposition decoded s"

definition handleClear :: "app_state \<Rightarrow> app_state" where
  "handleClear s =
     s\<lparr>loopAudioBuffer := None, layers := [], layerVolumes := [], layerMuted := [],
       undoStack := [], redoStack := []\<rparr>"

text \<open>\<open>handleLayerVolumeChange\<close> and \<open>handleLayerMuteToggle\<close>. \<open>layerIndex\<close> is the
  \<open>data-layer\<close> attribute of a control that \<open>updateLayerControls\<close> rendered for an existing
  layer, so it is a valid index.\<close>

definition handleLayerVolumeChange :: "nat \<Rightarrow> real \<Rightarrow> app_state \<Rightarrow> app_state" where
  "handleLayerVolumeChange layerIndex volume s =
     remix (s\<lparr>layerVolumes := (layerVolumes s)[layerIndex := volume]\<rparr>)"

definition handleLayerMuteToggle :: "nat \<Rightarrow> app_state \<Rightarrow> app_state" where
  "handleLayerMuteToggle layerIndex s =
     remix (s\<lparr>layerMuted := (layerMuted s)[layerIndex := \<not> layerMuted s ! layerIndex]\<rparr>)"

text \<open>The handlers of the application that touch the composition, as the events the
  user interface can raise.\<close>

datatype action =
    Record audio_buffer
  | Overdub audio_buffer
  | Undo
  | FileLoad audio_buffer
  | Clear
  | LayerVolumeChange nat real
  | LayerMuteToggle nat

fun handle :: "action \<Rightarrow> app_state \<Rightarrow> app_state" where
  "handle (Record b) s = handleRecord b s"
| "handle (Overdub b) s = handleOverdub b s"
| "handle Undo s = handleUndo s"
| "handle (FileLoad b) s = handleFileLoad b s"
| "handle Clear s = handleClear s"
| "handle (LayerVolumeChange i v) s = handleLayerVolumeChange i v s"
| "handle (LayerMuteToggle i) s = handleLayerMuteToggle i s"

section \<open>Example compositions\<close>

text \<open>The state the constructor sets up, two recorded takes, and the composition after
  recording the first take, overdubbing the second and undoing the overdub.\<close>

definition initial_state :: app_state where
  "initial_state =
     \<lparr>heap = [], layers = [], layerVolumes = [], layerMuted = [],
      undoStack = [], redoStack = [], loopAudioBuffer = None\<rparr>"

definition take1 :: audio_buffer where
  "take1 = \<lparr>buf_sampleRate = 44100, buf_channels = [[1, 1]]\<rparr>"

definition take2 :: audio_buffer where
  "take2 = \<lparr>buf_sampleRate = 44100, buf_channels = [[1 / 2, 1 / 2, 1 / 2]]\<rparr>"

definition example_state :: app_state where
  "example_state = handleUndo (handleOverdub take2 (handleRecord take1 initial_state))"

section \<open>Tempo detection: range and fallback\<close>

lemma clamp_int:
  "Math_max (Fin 60) (Math_min (Fin 180) (Fin (of_int k))) = Fin (of_int (max 60 (min 180 k)))"
  by (simp add: max_def min_def)

lemma bpmOfLag_int:
  assumes "0 < sampleRate" "0 < hopSize"
  shows "\<exists>n::int. bpmOfLag sampleRate hopSize bestLag = Fin (of_int n) \<and> 60 \<le> n \<and> n \<le> 180"
proof (cases "bestLag = 0")
  case True
  with assms have "bpmOfLag sampleRate hopSize bestLag = Fin (of_int 180)"
    by (simp add: bpmOfLag_def js_div_def)
  then show ?thesis by force
next
  case False
  define k where "k = \<lfloor>60 * (real sampleRate / real hopSize) / real bestLag + 1 / 2\<rfloor>"
  have "bpmOfLag sampleRate hopSize bestLag
          = Math_max (Fin 60) (Math_min (Fin 180) (Fin (of_int k)))"
    using False by (simp add: bpmOfLag_def js_div_def k_def)
  then have "bpmOfLag sampleRate hopSize bestLag = Fin (of_int (max 60 (min 180 k)))"
    by (simp only: clamp_int)
  then show ?thesis by force
qed

lemma bpmOfLag_zero: "0 < sampleRate \<Longrightarrow> 0 < hopSize \<Longrightarrow> bpmOfLag sampleRate hopSize 0 = Fin 180"
  by (simp add: bpmOfLag_def js_div_def)

lemma correlation_beyond: "length env \<le> lag \<Longrightarrow> correlation env lag step = NaN"
  by (simp add: correlation_def corr_indices_def js_div_def)

lemma consider_lag_beyond: "length env \<le> lag \<Longrightarrow> consider_lag env step lag best = best"
  by (simp add: consider_lag_def correlation_beyond)

lemma lagLoop_analyzer_beyond:
  "length env \<le> lag \<Longrightarrow> lagLoop_analyzer env lag maxLag best = best"
proof (induction env lag maxLag best rule: lagLoop_analyzer.induct)
  case (1 env lag maxLag best)
  show ?case
  proof (cases "lag < maxLag")
    case True
    have "lagLoop_analyzer env lag maxLag best
            = lagLoop_analyzer env (lag + 1) maxLag (consider_lag env 1 lag best)"
      using True by (subst lagLoop_analyzer.simps) simp
    also have "\<dots> = consider_lag env 1 lag best"
      using True "1.prems" by (intro "1.IH") auto
    finally show ?thesis using "1.prems" by (simp add: consider_lag_beyond)
  next
    case False
    then show ?thesis by (subst lagLoop_analyzer.simps) simp
  qed
qed

lemma lagLoop_worker_beyond:
  "length env \<le> lag \<Longrightarrow> lagLoop_worker env lag maxLag best = best"
proof (induction env lag maxLag best rule: lagLoop_worker.induct)
  case (1 env lag maxLag best)
  show ?case
  proof (cases "lag < maxLag")
    case True
    have "lagLoop_worker env lag maxLag best
            = lagLoop_worker env (lag + 5) maxLag (consider_lag env 2 lag best)"
      using True by (subst lagLoop_worker.simps) simp
    also have "\<dots> = consider_lag env 2 lag best"
      using True "1.prems" by (intro "1.IH") auto
    finally show ?thesis using "1.prems" by (simp add: consider_lag_beyond)
  next
    case False
    then show ?thesis by (subst lagLoop_worker.simps) simp
  qed
qed

text \<open>
  Claim C6. For every sample sequence and every positive sample rate, both tempo detectors
  return a whole number of beats per minute between 60 and 180, and when the energy
  envelope has fewer than \<open>minLag + 1\<close> values (no lag has a pair to correlate) they
  return the fixed value 180: \<open>bestLag\<close> stays 0, the division gives \<open>Infinity\<close>, and the
  clamp turns it into 180.
\<close>

theorem detectTempo_range:
  assumes "0 < sampleRate"
  shows "(\<exists>n::int. detectTempo_analyzer audioData sampleRate = Fin (of_int n) \<and> 60 \<le> n \<and> n \<le> 180)
       \<and> (\<exists>n::int. detectTempo_worker audioData sampleRate = Fin (of_int n) \<and> 60 \<le> n \<and> n \<le> 180)
       \<and> (length (energyEnvelope_analyzer audioData 0) < lagOf sampleRate 512 180 + 1
            \<longrightarrow> detectTempo_analyzer audioData sampleRate = Fin 180)
       \<and> (length (energyEnvelope_worker (take (min (length audioData) (10 * sampleRate)) audioData) 0)
              < lagOf sampleRate 2048 180 + 1
            \<longrightarrow> detectTempo_worker audioData sampleRate = Fin 180)"
proof (intro conjI impI)
  show "\<exists>n::int. detectTempo_analyzer audioData sampleRate = Fin (of_int n) \<and> 60 \<le> n \<and> n \<le> 180"
    unfolding detectTempo_analyzer_def Let_def using assms by (intro bpmOfLag_int) auto
  show "\<exists>n::int. detectTempo_worker audioData sampleRate = Fin (of_int n) \<and> 60 \<le> n \<and> n \<le> 180"
    unfolding detectTempo_worker_def Let_def using assms by (intro bpmOfLag_int) auto
next
  assume "length (energyEnvelope_analyzer audioData 0) < lagOf sampleRate 512 180 + 1"
  then have "length (energyEnvelope_analyzer audioData 0) \<le> lagOf sampleRate 512 180" by simp
  then show "detectTempo_analyzer audioData sampleRate = Fin 180"
    using assms by (simp add: detectTempo_analyzer_def Let_def lagLoop_analyzer_beyond bpmOfLag_zero)
next
  assume "length (energyEnvelope_worker (take (min (length audioData) (10 * sampleRate)) audioData) 0)
              < lagOf sampleRate 2048 180 + 1"
  then have "length (energyEnvelope_worker (take (min (length audioData) (10 * sampleRate)) audioData) 0)
              \<le> lagOf sampleRate 2048 180" by simp
  then show "detectTempo_worker audioData sampleRate = Fin 180"
    using assms by (simp add: detectTempo_worker_def Let_def lagLoop_worker_beyond bpmOfLag_zero)
qed

theorem detectTempo_range_witness:
  "(0::nat) < 44100 \<and> detectTempo_analyzer [1, 1] 44100 = Fin 180
     \<and> detectTempo_worker [1, 1] 44100 = Fin 180"
  using detectTempo_range [of 44100 "[1, 1]"]
  by (simp add: energyEnvelope_analyzer.simps energyEnvelope_worker.simps lagOf_def)

section \<open>Energy envelope: the divisor of the last hop\<close>

text \<open>Every value of the worker's envelope is the sum of the hop's absolute samples
  divided by the number of samples the hop has; the analyzer's is divided by 512.\<close>

lemma energyEnvelope_worker_nth:
  "i + k * 2048 < length data \<Longrightarrow>
     energyEnvelope_worker data i ! k
       = sum_list (map abs (take 2048 (drop (i + k * 2048) data)))
           / real (length (take 2048 (drop (i + k * 2048) data)))"
proof (induction k arbitrary: i)
  case 0
  have "min (i + 2048) (length data) - i = length (take 2048 (drop i data))"
    by (simp add: min_def) linarith
  then have "real (min (i + 2048) (length data) - i) = real (length (take 2048 (drop i data)))"
    by (rule arg_cong)
  with 0 show ?case
    by (subst energyEnvelope_worker.simps) (simp add: hop_energy_def Let_def del: length_take)
next
  case (Suc k)
  then have "i < length data" "i + 2048 + k * 2048 < length data" by simp_all
  then show ?case
    using Suc.IH [of "i + 2048"]
    by (subst energyEnvelope_worker.simps) (simp add: Let_def add.assoc add.commute)
qed

lemma energyEnvelope_analyzer_nth:
  "i + k * 512 < length audioData \<Longrightarrow>
     energyEnvelope_analyzer audioData i ! k
       = sum_list (map abs (take 512 (drop (i + k * 512) audioData))) / 512"
proof (induction k arbitrary: i)
  case 0
  then show ?case
    by (subst energyEnvelope_analyzer.simps) (simp add: hop_energy_def)
next
  case (Suc k)
  then have "i < length audioData" "i + 512 + k * 512 < length audioData" by simp_all
  then show ?case
    using Suc.IH [of "i + 512"]
    by (subst energyEnvelope_analyzer.simps) (simp add: add.assoc add.commute)
qed

text \<open>
  Claim C5. Each hop's value is the mean absolute sample over the samples that the hop
  really has. Evaluated on a channel of two samples of value 1 (one short hop): the
  worker divides by 2 and yields 1, the analyzer divides by the nominal 512 and yields
  1/256.
\<close>

theorem energyEnvelope_short_hop:
  "energyEnvelope_analyzer [1, 1] 0 = [1 / 256] \<and> energyEnvelope_worker [1, 1] 0 = [1]"
  by (simp add: energyEnvelope_analyzer.simps energyEnvelope_worker.simps hop_energy_def)

section \<open>History: what is recorded, what undo restores\<close>

lemma mixLayers_fields [simp]:
  "layers (remix s) = layers s" "layerVolumes (remix s) = layerVolumes s"
  "layerMuted (remix s) = layerMuted s" "undoStack (remix s) = undoStack s"
  "redoStack (remix s) = redoStack s"
  by (simp_all add: remix_def case_prod_beta)

lemma heap_mixLayers: "fst (mixLayers s) = heap s \<or> (\<exists>b. fst (mixLayers s) = heap s @ [b])"
  by (simp add: mixLayers_def alloc_def Let_def)

lemma heap_remix: "heap (remix s) = heap s \<or> (\<exists>b. heap (remix s) = heap s @ [b])"
  using heap_mixLayers [of s] by (auto simp: remix_def case_prod_beta)

lemma applyFades_ref [simp]: "snd (applyFades h r) = r"
  by (simp add: applyFades_def Let_def)

lemma applyFades_length [simp]: "length (fst (applyFades h r)) = length h"
  by (simp add: applyFades_def Let_def)

lemma applyFades_other: "r' \<noteq> r \<Longrightarrow> fst (applyFades h r) ! r' = h ! r'"
  by (simp add: applyFades_def Let_def)

lemma saveStateToUndo_fields [simp]:
  "layers (saveStateToUndo s) = layers s" "layerVolumes (saveStateToUndo s) = layerVolumes s"
  "layerMuted (saveStateToUndo s) = layerMuted s" "heap (saveStateToUndo s) = heap s"
  "redoStack (saveStateToUndo s) = redoStack s"
  by (simp_all add: saveStateToUndo_def Let_def)

lemma saveStateToRedo_fields [simp]:
  "layers (saveStateToRedo s) = layers s" "layerVolumes (saveStateToRedo s) = layerVolumes s"
  "layerMuted (saveStateToRedo s) = layerMuted s" "heap (saveStateToRedo s) = heap s"
  "undoStack (saveStateToRedo s) = undoStack s"
  by (simp_all add: saveStateToRedo_def Let_def)

lemma last_capped: "last (if length (xs @ [x]) > 10 then tl (xs @ [x]) else xs @ [x]) = x"
  by (cases xs) auto

lemma capped_nonempty: "(if length (xs @ [x]) > 10 then tl (xs @ [x]) else xs @ [x]) \<noteq> []"
  by (cases xs) auto

lemma handleOverdub_fields:
  "layers (handleOverdub b s) = layers s @ [length (heap s)]"
  "layerVolumes (handleOverdub b s) = layerVolumes s @ [1]"
  "layerMuted (handleOverdub b s) = layerMuted s @ [False]"
  "redoStack (handleOverdub b s) = []"
  "undoStack (handleOverdub b s) =
     (let st = undoStack s @ [currentSnapshot s] in if length st > 10 then tl st else st)"
  by (simp_all add: handleOverdub_def alloc_def saveStateToUndo_def currentSnapshot_def Let_def
        case_prod_beta)

lemma handleUndo_handleOverdub:
  "layers (handleUndo (handleOverdub b s)) = layers s
   \<and> layerVolumes (handleUndo (handleOverdub b s)) = layerVolumes s
   \<and> layerMuted (handleUndo (handleOverdub b s)) = layerMuted s
   \<and> redoStack (handleUndo (handleOverdub b s)) = [currentSnapshot (handleOverdub b s)]
   \<and> snap_layers (currentSnapshot (handleOverdub b s)) = layers s @ [length (heap s)]"
proof -
  let ?s1 = "handleOverdub b s"
  let ?st = "undoStack s @ [currentSnapshot s]"
  have u: "undoStack ?s1 = (if length ?st > 10 then tl ?st else ?st)"
    by (simp add: handleOverdub_fields Let_def)
  have ne: "length (undoStack ?s1) \<noteq> 0"
    unfolding u using capped_nonempty [of "undoStack s" "currentSnapshot s"] by simp
  have l: "last (undoStack ?s1) = currentSnapshot s"
    unfolding u by (rule last_capped)
  show ?thesis
    using ne l
    by (simp add: handleUndo_def Let_def handleOverdub_fields saveStateToRedo_def
          currentSnapshot_def)
qed

lemma startComposition_fields:
  "layers (startComposition b s) = [length (heap s)]"
  "layerVolumes (startComposition b s) = [1]"
  "layerMuted (startComposition b s) = [False]"
  "undoStack (startComposition b s) = []"
  "redoStack (startComposition b s) = []"
  "length (heap (startComposition b s)) = length (heap s) + 1"
  by (simp_all add: startComposition_def alloc_def case_prod_beta)

lemma heap_len_remix: "length (heap s) \<le> length (heap (remix s))"
  using heap_remix [of s] by auto

lemma heap_len_handleUndo: "length (heap s) \<le> length (heap (handleUndo s))"
  using heap_len_remix
    [of "(saveStateToRedo s)\<lparr>undoStack := butlast (undoStack (saveStateToRedo s)),
          layers := snap_layers (last (undoStack (saveStateToRedo s))),
          layerVolumes := snap_layerVolumes (last (undoStack (saveStateToRedo s))),
          layerMuted := snap_layerMuted (last (undoStack (saveStateToRedo s)))\<rparr>"]
  by (simp add: handleUndo_def Let_def)

lemma heap_len_handleOverdub: "length (heap s) < length (heap (handleOverdub b s))"
proof -
  let ?h0 = "fst (alloc (heap s) b)"
  let ?s1 = "saveStateToUndo (s\<lparr>heap := ?h0\<rparr>)"
  let ?s2 = "?s1\<lparr>heap := fst (applyFades (heap ?s1) (snd (alloc (heap s) b))),
                   layers := layers ?s1 @ [snd (applyFades (heap ?s1) (snd (alloc (heap s) b)))],
                   layerVolumes := layerVolumes ?s1 @ [1],
                   layerMuted := layerMuted ?s1 @ [False],
                   redoStack := []\<rparr>"
  have "handleOverdub b s = remix ?s2"
    by (simp add: handleOverdub_def Let_def case_prod_beta)
  moreover have "length (heap ?s2) = length (heap s) + 1"
    by (simp add: alloc_def)
  ultimately show ?thesis
    using heap_len_remix [of ?s2] by simp
qed

lemma handleOverdub_keeps_store:
  "take (length (heap s)) (heap (handleOverdub b s)) = heap s"
proof -
  let ?h0 = "fst (alloc (heap s) b)"
  let ?s1 = "saveStateToUndo (s\<lparr>heap := ?h0\<rparr>)"
  let ?s2 = "?s1\<lparr>heap := fst (applyFades (heap ?s1) (snd (alloc (heap s) b))),
                   layers := layers ?s1 @ [snd (applyFades (heap ?s1) (snd (alloc (heap s) b)))],
                   layerVolumes := layerVolumes ?s1 @ [1],
                   layerMuted := layerMuted ?s1 @ [False],
                   redoStack := []\<rparr>"
  have eq: "handleOverdub b s = remix ?s2"
    by (simp add: handleOverdub_def Let_def case_prod_beta)
  have "take (length (heap s)) (heap ?s2) = heap s"
    by (simp add: alloc_def applyFades_def Let_def saveStateToUndo_def)
  moreover have "heap (remix ?s2) = heap ?s2 \<or> (\<exists>x. heap (remix ?s2) = heap ?s2 @ [x])"
    by (simp add: remix_def case_prod_beta mixLayers_def alloc_def Let_def)
  moreover have "length (heap s) \<le> length (heap ?s2)"
    by (simp add: alloc_def applyFades_def Let_def saveStateToUndo_def)
  ultimately show ?thesis
    unfolding eq by auto
qed

lemma handleUndo_keeps_store: "take (length (heap s)) (heap (handleUndo s)) = heap s"
proof -
  let ?s1 = "(saveStateToRedo s)\<lparr>undoStack := butlast (undoStack (saveStateToRedo s)),
          layers := snap_layers (last (undoStack (saveStateToRedo s))),
          layerVolumes := snap_layerVolumes (last (undoStack (saveStateToRedo s))),
          layerMuted := snap_layerMuted (last (undoStack (saveStateToRedo s)))\<rparr>"
  have "heap (remix ?s1) = heap s \<or> (\<exists>x. heap (remix ?s1) = heap s @ [x])"
    using heap_remix [of ?s1] by simp
  then show ?thesis
    by (auto simp: handleUndo_def Let_def)
qed

lemma undo_overdub_keeps_store:
  "take (length (heap s)) (heap (handleUndo (handleOverdub b s))) = heap s"
proof -
  have "take (length (heap s)) (heap (handleUndo (handleOverdub b s)))
          = take (length (heap s))
              (take (length (heap (handleOverdub b s))) (heap (handleUndo (handleOverdub b s))))"
    using heap_len_handleOverdub [of s b] by (simp add: min_def)
  also have "\<dots> = take (length (heap s)) (heap (handleOverdub b s))"
    by (simp only: handleUndo_keeps_store)
  also have "\<dots> = heap s"
    by (rule handleOverdub_keeps_store)
  finally show ?thesis .
qed

lemma undoStack_undo_overdub:
  "undoStack (handleUndo (handleOverdub b s)) =
     butlast (if length (undoStack s @ [currentSnapshot s]) > 10
              then tl (undoStack s @ [currentSnapshot s]) else undoStack s @ [currentSnapshot s])"
proof -
  have "length (undoStack (handleOverdub b s)) \<noteq> 0"
    using capped_nonempty [of "undoStack s" "currentSnapshot s"]
    by (simp add: handleOverdub_fields Let_def)
  then show ?thesis
    by (simp add: handleUndo_def Let_def handleOverdub_fields)
qed

lemma example_fields:
  "layers example_state = [0]" "layerVolumes example_state = [1]"
  "layerMuted example_state = [False]" "undoStack example_state = []"
  "redoStack example_state = [\<lparr>snap_layers = [0, 1], snap_layerVolumes = [1, 1],
                                snap_layerMuted = [False, False]\<rparr>]"
  using handleUndo_handleOverdub [of take2 "handleRecord take1 initial_state"]
    undoStack_undo_overdub [of take2 "handleRecord take1 initial_state"]
  by (simp_all add: example_state_def handleRecord_def startComposition_fields initial_state_def
        currentSnapshot_def handleOverdub_fields)

text \<open>
  Claim C3, as the code has it. Adding an overdub layer pushes a snapshot of the state
  before the addition onto the undo stack (dropping the oldest entry beyond 10) and
  empties the redo stack. Setting a layer's volume and toggling a layer's mute change
  neither stack.
\<close>

theorem history_bracketing:
  "undoStack (handleOverdub b s) =
     (let st = undoStack s @ [currentSnapshot s] in if length st > 10 then tl st else st)
   \<and> redoStack (handleOverdub b s) = []
   \<and> undoStack (handleLayerVolumeChange i v s) = undoStack s
   \<and> redoStack (handleLayerVolumeChange i v s) = redoStack s
   \<and> undoStack (handleLayerMuteToggle i s) = undoStack s
   \<and> redoStack (handleLayerMuteToggle i s) = redoStack s"
  by (simp add: handleOverdub_fields handleLayerVolumeChange_def handleLayerMuteToggle_def)

text \<open>
  The claim as stated fails for the volume and mute handlers: in the example composition
  (one layer, an empty undo stack, one entry on the redo stack) each of them changes its
  array, pushes nothing and leaves the redo stack alone.
\<close>

theorem volume_and_mute_skip_history:
  "layerVolumes (handleLayerVolumeChange 0 (1 / 2) example_state) \<noteq> layerVolumes example_state
   \<and> undoStack (handleLayerVolumeChange 0 (1 / 2) example_state) = []
   \<and> redoStack (handleLayerVolumeChange 0 (1 / 2) example_state) \<noteq> []
   \<and> layerMuted (handleLayerMuteToggle 0 example_state) \<noteq> layerMuted example_state
   \<and> undoStack (handleLayerMuteToggle 0 example_state) = []
   \<and> redoStack (handleLayerMuteToggle 0 example_state) \<noteq> []"
  by (simp add: handleLayerVolumeChange_def handleLayerMuteToggle_def example_fields)

text \<open>
  Claim C4, as the code has it. After an overdub, \<open>handleUndo\<close> restores the layer sequence,
  the volumes and the mute flags of the state before the overdub (the buffers that existed
  then are untouched), and leaves the state after the overdub as the only entry of the
  redo stack.
\<close>

theorem undo_after_overdub:
  "layers (handleUndo (handleOverdub b s)) = layers s
   \<and> layerVolumes (handleUndo (handleOverdub b s)) = layerVolumes s
   \<and> layerMuted (handleUndo (handleOverdub b s)) = layerMuted s
   \<and> take (length (heap s)) (heap (handleUndo (handleOverdub b s))) = heap s
   \<and> redoStack (handleUndo (handleOverdub b s)) = [currentSnapshot (handleOverdub b s)]
   \<and> snap_layers (currentSnapshot (handleOverdub b s)) = layers s @ [length (heap s)]"
  using handleUndo_handleOverdub [of b s] undo_overdub_keeps_store [of s b] by simp

text \<open>
  No redo exists: nothing reads the redo stack. In the example composition, no handler
  of the application brings back the layer sequence that the overdub had produced.
\<close>

theorem no_handler_redoes:
  "\<not> (\<exists>a. layers (handle a example_state)
            = layers (handleOverdub take2 (handleRecord take1 initial_state)))"
proof
  assume "\<exists>a. layers (handle a example_state)
            = layers (handleOverdub take2 (handleRecord take1 initial_state))"
  then obtain a where a: "layers (handle a example_state) = [0, 1]"
    by (auto simp: handleOverdub_fields handleRecord_def startComposition_fields initial_state_def)
  have h1: "length (heap (handleRecord take1 initial_state)) = 1"
    by (simp add: handleRecord_def startComposition_fields initial_state_def)
  have "1 < length (heap (handleOverdub take2 (handleRecord take1 initial_state)))"
    using heap_len_handleOverdub [of "handleRecord take1 initial_state" take2] h1 by simp
  then have big: "1 < length (heap example_state)"
    using heap_len_handleUndo [of "handleOverdub take2 (handleRecord take1 initial_state)"]
    by (simp add: example_state_def)
  show False
  proof (cases a)
    case (Record b)
    with a show False by (simp add: handleRecord_def startComposition_fields)
  next
    case (Overdub b)
    with a big show False by (simp add: handleOverdub_fields example_fields)
  next
    case Undo
    with a show False by (simp add: handleUndo_def example_fields)
  next
    case (FileLoad b)
    with a show False by (simp add: handleFileLoad_def startComposition_fields)
  next
    case Clear
    with a show False by (simp add: handleClear_def)
  next
    case (LayerVolumeChange i v)
    with a show False by (simp add: handleLayerVolumeChange_def example_fields)
  next
    case (LayerMuteToggle i)
    with a show False by (simp add: handleLayerMuteToggle_def example_fields)
  qed
qed

section \<open>Mixing\<close>

text \<open>
  Claim C10. With exactly one layer \<open>mixLayers\<close> returns that layer's own buffer and creates
  nothing, whatever the layer's volume and mute flag are; so muting the only layer, or
  turning its volume down, leaves the composite as it was.
\<close>

theorem mixLayers_single_layer:
  assumes "layers s = [r]"
  shows "mixLayers s = (heap s, Some r)
       \<and> loopAudioBuffer (handleLayerMuteToggle i s) = Some r
       \<and> heap (handleLayerMuteToggle i s) = heap s
       \<and> loopAudioBuffer (handleLayerVolumeChange i v s) = Some r
       \<and> heap (handleLayerVolumeChange i v s) = heap s"
  using assms
  by (simp add: mixLayers_def handleLayerMuteToggle_def handleLayerVolumeChange_def remix_def)

theorem mixLayers_single_layer_witness:
  "mixLayers \<lparr>heap = [take1], layers = [0], layerVolumes = [1 / 4], layerMuted = [True],
              undoStack = [], redoStack = [], loopAudioBuffer = Some 0\<rparr>
     = ([take1], Some 0)"
  using mixLayers_single_layer
    [of "\<lparr>heap = [take1], layers = [0], layerVolumes = [1 / 4], layerMuted = [True],
              undoStack = [], redoStack = [], loopAudioBuffer = Some 0\<rparr>" 0]
  by simp

lemma fold_upt_Suc: "fold f [0..<Suc n] x = f n (fold f [0..<n] x)"
  by simp

lemma add_layer_steps:
  "fold (\<lambda>i m. if i < length m then m[i := m ! i + channelData ! i * volume] else m) [0..<n] mixedData
     = map (\<lambda>j. if j < n then mixedData ! j + channelData ! j * volume else mixedData ! j)
         [0..<length mixedData]"
proof (induction n)
  case 0
  show ?case by (simp add: map_nth)
next
  case (Suc n)
  let ?f = "\<lambda>i m. if i < length m then m[i := m ! i + channelData ! i * volume] else m"
  let ?d = "map (\<lambda>j. if j < n then mixedData ! j + channelData ! j * volume else mixedData ! j)
              [0..<length mixedData]"
  have "fold ?f [0..<Suc n] mixedData = ?f n (fold ?f [0..<n] mixedData)"
    by (rule fold_upt_Suc)
  also have "\<dots> = ?f n ?d"
    by (simp only: Suc.IH)
  also have "\<dots> = map (\<lambda>j. if j < Suc n then mixedData ! j + channelData ! j * volume
                               else mixedData ! j) [0..<length mixedData]"
  proof (cases "n < length mixedData")
    case True
    then show ?thesis
      by (intro nth_equalityI) (auto simp: nth_list_update less_Suc_eq)
  next
    case False
    then show ?thesis
      by (intro nth_equalityI) (auto simp: less_Suc_eq)
  qed
  finally show ?case .
qed

lemma add_layer_closed:
  "add_layer channelData volume mixedData
     = map (\<lambda>j. if j < length channelData then mixedData ! j + channelData ! j * volume
                 else mixedData ! j) [0..<length mixedData]"
  unfolding add_layer_def by (rule add_layer_steps)

lemma add_layer_commute:
  "add_layer c1 v1 (add_layer c2 v2 m) = add_layer c2 v2 (add_layer c1 v1 m)"
  by (rule nth_equalityI) (auto simp: add_layer_closed)

lemma layer_step_commute:
  "layer_step m1 c1 v1 (layer_step m2 c2 v2 m) = layer_step m2 c2 v2 (layer_step m1 c1 v1 m)"
  by (simp add: layer_step_def add_layer_commute)

lemma upt3: "[0..<3] = [0, 1, 2]"
  by (simp add: numeral_3_eq_3)

lemma mixChannel_three:
  "mixChannel (s\<lparr>layers := [a, b, c], layerVolumes := [va, vb, vc], layerMuted := [ma, mb, mc]\<rparr>)
       channel maxLength
     = layer_step mc (buf_channels (heap s ! c) ! min channel (numberOfChannels (heap s ! c) - 1)) vc
        (layer_step mb (buf_channels (heap s ! b) ! min channel (numberOfChannels (heap s ! b) - 1)) vb
          (layer_step ma (buf_channels (heap s ! a) ! min channel (numberOfChannels (heap s ! a) - 1)) va
            (replicate maxLength 0)))"
  by (simp add: mixChannel_def upt3 layer_step_def Let_def)

text \<open>Two layers of different lengths: the mix is a new buffer, sample by sample the sum
  of the unmuted layers' samples times their volumes, the shorter layer adding nothing
  beyond its end.\<close>

lemma mixLayers_two_takes:
  "mixLayers \<lparr>heap = [take1, take2], layers = [0, 1], layerVolumes = [1, 1 / 2],
              layerMuted = [False, False], undoStack = [], redoStack = [],
              loopAudioBuffer = None\<rparr>
     = ([take1, take2, \<lparr>buf_sampleRate = 44100, buf_channels = [[5 / 4, 5 / 4, 1 / 4]]\<rparr>],
        Some 2)"
  by (simp add: mixLayers_def mixChannel_def add_layer_closed alloc_def take1_def take2_def
        buf_length_def numberOfChannels_def Let_def upt_rec numeral_2_eq_2 numeral_3_eq_3)

lemma mixLayers_muted_take:
  "mixLayers \<lparr>heap = [take1, take2], layers = [0, 1], layerVolumes = [1, 1 / 2],
              layerMuted = [True, False], undoStack = [], redoStack = [],
              loopAudioBuffer = None\<rparr>
     = ([take1, take2, \<lparr>buf_sampleRate = 44100, buf_channels = [[1 / 4, 1 / 4, 1 / 4]]\<rparr>],
        Some 2)"
  by (simp add: mixLayers_def mixChannel_def add_layer_closed alloc_def take1_def take2_def
        buf_length_def numberOfChannels_def Let_def upt_rec numeral_2_eq_2 numeral_3_eq_3)

text \<open>
  Claim C9. Mixing the layers \<open>[A, B, C]\<close> and mixing \<open>[C, A, B]\<close>, every layer keeping its
  volume and its mute flag, give the same store and the same new buffer (samples are exact
  reals here, so the sums agree exactly).
\<close>

theorem mixLayers_rotation:
  "mixLayers (s\<lparr>layers := [c, a, b], layerVolumes := [vc, va, vb], layerMuted := [mc, ma, mb]\<rparr>)
     = mixLayers (s\<lparr>layers := [a, b, c], layerVolumes := [va, vb, vc], layerMuted := [ma, mb, mc]\<rparr>)"
proof -
  have ch: "mixChannel (s\<lparr>layers := [c, a, b], layerVolumes := [vc, va, vb],
                          layerMuted := [mc, ma, mb]\<rparr>) channel maxLength
          = mixChannel (s\<lparr>layers := [a, b, c], layerVolumes := [va, vb, vc],
                          layerMuted := [ma, mb, mc]\<rparr>) channel maxLength" for channel maxLength
    unfolding mixChannel_three
    by (metis layer_step_commute)
  show ?thesis
    unfolding mixLayers_def Let_def ch
    by (simp add: max.commute max.left_commute)
qed


section \<open>Buffers: who writes into them\<close>

lemma fadeIn_steps:
  "fold (\<lambda>i d. if i < length d then d[i := d ! i * (real i / real fl)] else d) [0..<n] data
     = map (\<lambda>j. if j < n then data ! j * (real j / real fl) else data ! j) [0..<length data]"
proof (induction n)
  case 0
  show ?case by (simp add: map_nth)
next
  case (Suc n)
  let ?f = "\<lambda>i d. if i < length d then d[i := d ! i * (real i / real fl)] else d"
  let ?d = "map (\<lambda>j. if j < n then data ! j * (real j / real fl) else data ! j) [0..<length data]"
  have "fold ?f [0..<Suc n] data = ?f n (fold ?f [0..<n] data)"
    by (rule fold_upt_Suc)
  also have "\<dots> = ?f n ?d"
    by (simp only: Suc.IH)
  also have "\<dots> = map (\<lambda>j. if j < Suc n then data ! j * (real j / real fl) else data ! j)
                      [0..<length data]"
  proof (cases "n < length data")
    case True
    then show ?thesis
      by (intro nth_equalityI) (auto simp: nth_list_update less_Suc_eq)
  next
    case False
    then show ?thesis
      by (intro nth_equalityI) (auto simp: less_Suc_eq)
  qed
  finally show ?case .
qed

lemma fadeIn_closed:
  "fadeIn fl data
     = map (\<lambda>j. if j < fl then data ! j * (real j / real fl) else data ! j) [0..<length data]"
  unfolding fadeIn_def by (rule fadeIn_steps)

lemma fadeOut_step:
  "(let idx = int (length d) - int fl + int n
    in if 0 \<le> idx \<and> idx < int (length d)
       then d[nat idx := d ! nat idx * (real (fl - n) / real fl)] else d)
   = (if fl \<le> length d + n \<and> n < fl
      then d[length d + n - fl := d ! (length d + n - fl) * (real (fl - n) / real fl)] else d)"
proof (cases "fl \<le> length d + n \<and> n < fl")
  case True
  then have c1: "0 \<le> int (length d) - int fl + int n
               \<and> int (length d) - int fl + int n < int (length d)" by auto
  have eq: "nat (int (length d) - int fl + int n) = length d + n - fl"
    using True by auto
  show ?thesis
    by (simp only: Let_def c1 eq True if_True)
next
  case False
  then have "\<not> (0 \<le> int (length d) - int fl + int n
               \<and> int (length d) - int fl + int n < int (length d))" by auto
  then show ?thesis
    using False by (simp only: Let_def if_False)
qed

lemma fadeOut_steps:
  "fold (\<lambda>i d. let idx = int (length d) - int fl + int i
               in if 0 \<le> idx \<and> idx < int (length d)
                  then d[nat idx := d ! nat idx * (real (fl - i) / real fl)] else d) [0..<n] data
     = map (\<lambda>j. if length data \<le> j + fl \<and> j + fl < length data + n
                 then data ! j * (real (length data - j) / real fl) else data ! j)
         [0..<length data]"
proof (induction n)
  case 0
  show ?case by (auto intro!: nth_equalityI)
next
  case (Suc n)
  define c where "c = (\<lambda>n j. length data \<le> j + fl \<and> j + fl < length data + n)"
  define d where "d = (\<lambda>n. map (\<lambda>j. if c n j then data ! j * (real (length data - j) / real fl)
                         else data ! j) [0..<length data])"
  have len: "length (d n) = length data" for n by (simp add: d_def)
  have nth: "d n ! j = (if c n j then data ! j * (real (length data - j) / real fl) else data ! j)"
    if "j < length data" for n j using that by (simp add: d_def)
  have step: "(if fl \<le> length (d n) + n \<and> n < fl
        then (d n)[length (d n) + n - fl := d n ! (length (d n) + n - fl) * (real (fl - n) / real fl)]
        else d n) = d (Suc n)"
  proof (rule nth_equalityI)
    show "length (if fl \<le> length (d n) + n \<and> n < fl
        then (d n)[length (d n) + n - fl := d n ! (length (d n) + n - fl) * (real (fl - n) / real fl)]
        else d n) = length (d (Suc n))"
      by (simp add: len)
  next
    fix j
    assume "j < length (if fl \<le> length (d n) + n \<and> n < fl
        then (d n)[length (d n) + n - fl := d n ! (length (d n) + n - fl) * (real (fl - n) / real fl)]
        else d n)"
    then have j: "j < length data" by (simp add: len split: if_splits)
    show "(if fl \<le> length (d n) + n \<and> n < fl
        then (d n)[length (d n) + n - fl := d n ! (length (d n) + n - fl) * (real (fl - n) / real fl)]
        else d n) ! j = d (Suc n) ! j"
    proof (cases "fl \<le> length data + n \<and> n < fl")
      case True
      define j0 where "j0 = length data + n - fl"
      have j0: "j0 < length data" "j0 + fl = length data + n"
        using True by (auto simp: j0_def)
      have fac: "real (fl - n) = real (length data - j0)"
        using True by (auto simp: j0_def)
      have cj0: "\<not> c n j0" "c (Suc n) j0" using j0 by (auto simp: c_def)
      show ?thesis
      proof (cases "j = j0")
        case True
        with j j0 cj0 \<open>fl \<le> length data + n \<and> n < fl\<close> show ?thesis
          by (simp add: len nth fac flip: j0_def)
      next
        case False
        then have "c (Suc n) j = c n j"
          using j0 by (auto simp: c_def)
        with False j \<open>fl \<le> length data + n \<and> n < fl\<close> show ?thesis
          by (simp add: len nth flip: j0_def)
      qed
    next
      case False
      then have "c (Suc n) j = c n j"
        using j by (auto simp: c_def)
      with False j show ?thesis
        by (auto simp: len nth)
    qed
  qed
  have "fold (\<lambda>i d. let idx = int (length d) - int fl + int i
               in if 0 \<le> idx \<and> idx < int (length d)
                  then d[nat idx := d ! nat idx * (real (fl - i) / real fl)] else d) [0..<Suc n] data
        = (let idx = int (length (d n)) - int fl + int n
           in if 0 \<le> idx \<and> idx < int (length (d n))
              then (d n)[nat idx := d n ! nat idx * (real (fl - n) / real fl)] else d n)"
    unfolding fold_upt_Suc Suc.IH d_def c_def ..
  also have "\<dots> = d (Suc n)"
    by (simp only: fadeOut_step step)
  finally show ?case
    by (simp only: d_def c_def)
qed

lemma fadeOut_closed:
  "fadeOut fl data
     = map (\<lambda>j. if length data \<le> j + fl then data ! j * (real (length data - j) / real fl)
                 else data ! j) [0..<length data]"
  unfolding fadeOut_def fadeOut_steps
  by (rule map_cong) auto


lemma mixLayers_keeps_store: "take (length (heap s)) (fst (mixLayers s)) = heap s"
  by (simp add: mixLayers_def alloc_def Let_def)

lemma mixLayers_new_buffer:
  "2 \<le> length (layers s) \<Longrightarrow>
     snd (mixLayers s) = Some (length (heap s))
     \<and> length (fst (mixLayers s)) = Suc (length (heap s))"
  by (auto simp: mixLayers_def alloc_def Let_def)

lemma fades_closed:
  "fadeOut fl (fadeIn fl data)
     = map (\<lambda>j. data ! j * (if j < fl then real j / real fl else 1)
                         * (if length data \<le> j + fl then real (length data - j) / real fl else 1))
         [0..<length data]"
  by (rule nth_equalityI) (simp_all add: fadeOut_closed fadeIn_closed)

text \<open>
  Claim C7, as the code has it. \<open>mixLayers\<close> writes into no existing buffer: the store it
  leaves starts with the old store, and with two layers or more its result is a buffer
  that did not exist before. \<open>applyFades\<close> does write into its argument: it returns the
  reference it was given, the buffer behind it now holds the faded samples (the first and
  the last \<open>fadeLength\<close> samples of every channel scaled), and no other buffer changes.
\<close>

theorem buffer_writes:
  "take (length (heap s)) (fst (mixLayers s)) = heap s
   \<and> (2 \<le> length (layers s) \<longrightarrow>
        snd (mixLayers s) = Some (length (heap s))
        \<and> length (fst (mixLayers s)) = Suc (length (heap s)))
   \<and> snd (applyFades h r) = r
   \<and> length (fst (applyFades h r)) = length h
   \<and> (\<forall>r'. r' \<noteq> r \<longrightarrow> fst (applyFades h r) ! r' = h ! r')
   \<and> (r < length h \<longrightarrow>
        buf_sampleRate (fst (applyFades h r) ! r) = buf_sampleRate (h ! r)
        \<and> buf_channels (fst (applyFades h r) ! r) =
            map (\<lambda>data. fadeOut (nat \<lfloor>(5 / 1000) * real (buf_sampleRate (h ! r))\<rfloor>)
                          (fadeIn (nat \<lfloor>(5 / 1000) * real (buf_sampleRate (h ! r))\<rfloor>) data))
              (buf_channels (h ! r)))"
  using mixLayers_keeps_store [of s] mixLayers_new_buffer [of s] applyFades_other [of _ r h]
  by (simp add: applyFades_def Let_def)

theorem buffer_writes_witness:
  "take 2 (fst (mixLayers \<lparr>heap = [take1, take2], layers = [0, 1], layerVolumes = [1, 1],
                            layerMuted = [False, False], undoStack = [], redoStack = [],
                            loopAudioBuffer = None\<rparr>)) = [take1, take2]
   \<and> snd (mixLayers \<lparr>heap = [take1, take2], layers = [0, 1], layerVolumes = [1, 1],
                      layerMuted = [False, False], undoStack = [], redoStack = [],
                      loopAudioBuffer = None\<rparr>) = Some 2
   \<and> fst (applyFades [take1, take2] 0) ! 1 = take2
   \<and> buf_channels (fst (applyFades [take1, take2] 0) ! 0) = [[0, 1 / 48400]]"
proof -
  let ?s = "\<lparr>heap = [take1, take2], layers = [0, 1], layerVolumes = [1, 1],
            layerMuted = [False, False], undoStack = [], redoStack = [],
            loopAudioBuffer = None\<rparr>"
  note w = buffer_writes [of ?s "[take1, take2]" 0]
  from w have "take (length (heap ?s)) (fst (mixLayers ?s)) = heap ?s" by (rule conjunct1)
  then have 1: "take 2 (fst (mixLayers ?s)) = [take1, take2]" by (simp add: numeral_2_eq_2)
  from w have "2 \<le> length (layers ?s) \<longrightarrow> snd (mixLayers ?s) = Some (length (heap ?s))
        \<and> length (fst (mixLayers ?s)) = Suc (length (heap ?s))" by blast
  then have 2: "snd (mixLayers ?s) = Some 2" by simp
  from w have "\<forall>r'. r' \<noteq> 0 \<longrightarrow> fst (applyFades [take1, take2] 0) ! r' = [take1, take2] ! r'"
    by blast
  then have "fst (applyFades [take1, take2] 0) ! 1 = [take1, take2] ! 1" by simp
  then have 3: "fst (applyFades [take1, take2] 0) ! 1 = take2" by simp
  from w have "0 < length [take1, take2] \<longrightarrow>
        buf_sampleRate (fst (applyFades [take1, take2] 0) ! 0) = buf_sampleRate ([take1, take2] ! 0)
        \<and> buf_channels (fst (applyFades [take1, take2] 0) ! 0) =
            map (\<lambda>data. fadeOut (nat \<lfloor>(5 / 1000) * real (buf_sampleRate ([take1, take2] ! 0))\<rfloor>)
                          (fadeIn (nat \<lfloor>(5 / 1000) * real (buf_sampleRate ([take1, take2] ! 0))\<rfloor>) data))
              (buf_channels ([take1, take2] ! 0))" by blast
  then have 4: "buf_channels (fst (applyFades [take1, take2] 0) ! 0) = [[0, 1 / 48400]]"
    by (simp add: take1_def fadeIn_closed fadeOut_closed)
  from 1 2 3 4 show ?thesis by blast
qed

text \<open>
  The claim as stated fails for \<open>applyFades\<close>: handed the buffer of the first take (two
  samples of value 1 at 44100 Hz, so \<open>fadeLength = 220\<close>), it leaves that same buffer
  holding the samples 0 and 1/48400.
\<close>

theorem applyFades_in_place:
  "buf_channels ([take1] ! 0) = [[1, 1]]
   \<and> applyFades [take1] 0 = ([\<lparr>buf_sampleRate = 44100, buf_channels = [[0, 1 / 48400]]\<rparr>], 0)"
  by (simp add: applyFades_def take1_def fadeIn_closed fadeOut_closed Let_def)

section \<open>Chord identification: the three strongest pitch classes\<close>

lemma insert_by_energy:
  assumes "\<exists>v. fst x = Fin v" "\<forall>y\<in>set ys. \<exists>v. fst y = Fin v"
  shows "insert_by (\<lambda>a b. js_sub (fst b) (fst a)) x ys = insort_key energy_key x ys"
  using assms by (induction ys) (auto simp: energy_key_def)

lemma sort_by_energy:
  assumes "\<forall>y\<in>set xs. \<exists>v. fst y = Fin v"
  shows "sort_by (\<lambda>a b. js_sub (fst b) (fst a)) xs = sort_key energy_key xs"
  using assms
proof (induction xs)
  case Nil
  show ?case by (simp add: sort_by_def)
next
  case (Cons x xs)
  then have IH: "sort_by (\<lambda>a b. js_sub (fst b) (fst a)) xs = sort_key energy_key xs" by simp
  have "sort_by (\<lambda>a b. js_sub (fst b) (fst a)) (x # xs)
          = insert_by (\<lambda>a b. js_sub (fst b) (fst a)) x (sort_key energy_key xs)"
    using IH by (simp add: sort_by_def)
  also have "\<dots> = insort_key energy_key x (sort_key energy_key xs)"
    using Cons.prems by (intro insert_by_energy) auto
  finally show ?case by simp
qed

lemma insert_by_index:
  "insert_by (\<lambda>a b. Fin (real a - real b)) (x::nat) ys = insort x ys"
  by (induction ys) auto

lemma sort_by_index: "sort_by (\<lambda>a b. Fin (real a - real b)) (xs::nat list) = sort xs"
  by (induction xs) (simp_all add: sort_by_def insert_by_index)

lemma indexed_set:
  "set (zip (map Fin c) [0..<length c]) = (\<lambda>i. (Fin (c ! i), i)) ` {0..<length c}"
proof -
  have "set (zip (map Fin c) [0..<length c])
          = {(map Fin c ! i, [0..<length c] ! i) | i. i < length c}"
    by (simp add: set_zip)
  also have "\<dots> = (\<lambda>i. (Fin (c ! i), i)) ` {0..<length c}"
  proof (intro set_eqI iffI)
    fix p assume "p \<in> {(map Fin c ! i, [0..<length c] ! i) | i. i < length c}"
    then obtain i where "i < length c" "p = (map Fin c ! i, [0..<length c] ! i)" by blast
    then show "p \<in> (\<lambda>i. (Fin (c ! i), i)) ` {0..<length c}" by simp
  next
    fix p assume "p \<in> (\<lambda>i. (Fin (c ! i), i)) ` {0..<length c}"
    then obtain i where i: "i < length c" "p = (Fin (c ! i), i)" by auto
    then have "p = (map Fin c ! i, [0..<length c] ! i)" by simp
    with i(1) show "p \<in> {(map Fin c ! i, [0..<length c] ! i) | i. i < length c}" by blast
  qed
  finally show ?thesis .
qed

lemma indexed_distinct: "distinct (zip (map Fin c) [0..<length c])"
  by (rule distinct_zipI2) simp

lemma top3_dominant:
  fixes c :: "real list"
  assumes len: "length c = 12"
    and abd: "a < b" "b < d" "d < 12"
    and dom: "\<forall>i\<in>{a, b, d}. \<forall>j<12. j \<notin> {a, b, d} \<longrightarrow> c ! j < c ! i"
  shows "set (map snd (take 3 (sort_by (\<lambda>a b. js_sub (fst b) (fst a))
                                  (zip (map Fin c) [0..<length c])))) = {a, b, d}"
    and "distinct (map snd (take 3 (sort_by (\<lambda>a b. js_sub (fst b) (fst a))
                                  (zip (map Fin c) [0..<length c]))))"
proof -
  define xs where "xs = zip (map Fin c) [0..<length c]"
  define ys where "ys = sort_key energy_key xs"
  have fin: "\<forall>y\<in>set xs. \<exists>v. fst y = Fin v"
    by (auto simp: xs_def indexed_set)
  have sorted_eq: "sort_by (\<lambda>a b. js_sub (fst b) (fst a)) xs = ys"
    unfolding ys_def using fin by (rule sort_by_energy)
  have "set xs = (\<lambda>i. (Fin (c ! i), i)) ` {0..<length c}"
    unfolding xs_def by (rule indexed_set)
  then have set_ys: "set ys = (\<lambda>i. (Fin (c ! i), i)) ` {0..<12}"
    by (simp add: ys_def len)
  have dist_ys: "distinct ys"
    by (simp add: ys_def xs_def indexed_distinct)
  have len_ys: "length ys = 12"
    by (simp add: ys_def xs_def len)
  have srt: "sorted (map energy_key ys)"
    by (simp add: ys_def)
  define T where "T = take 3 ys"
  define D where "D = drop 3 ys"
  have ys_TD: "ys = T @ D" by (simp add: T_def D_def)
  have lenT: "length T = 3" by (simp add: T_def len_ys)
  have distT: "distinct T" using dist_ys by (simp add: T_def)
  have cardT: "card (set T) = 3" using distT lenT by (simp add: distinct_card)
  have disj: "set T \<inter> set D = {}" using dist_ys unfolding ys_TD by simp
  have order: "energy_key t \<le> energy_key u" if "t \<in> set T" "u \<in> set D" for t u
    using srt that unfolding ys_TD by (auto simp: sorted_append)
  define S where "S = (\<lambda>i. (Fin (c ! i), i)) ` {a, b, d}"
  have cardS: "card S = 3"
    using abd by (simp add: S_def)
  have finS: "finite S" by (simp add: S_def)
  have S_ys: "S \<subseteq> set ys"
    using abd by (auto simp: S_def set_ys)
  have SD: "S \<inter> set D = {}"
  proof (rule ccontr)
    assume "S \<inter> set D \<noteq> {}"
    then obtain s where s: "s \<in> S" "s \<in> set D" by auto
    then obtain i where i: "i \<in> {a, b, d}" "s = (Fin (c ! i), i)" by (auto simp: S_def)
    have "set T \<subseteq> S"
    proof
      fix t assume t: "t \<in> set T"
      then have "t \<in> set ys" by (simp add: ys_TD)
      then obtain j where j: "j < 12" "t = (Fin (c ! j), j)" by (auto simp: set_ys)
      have "energy_key t \<le> energy_key s" using order t s(2) by simp
      then have "c ! i \<le> c ! j" using i j by (simp add: energy_key_def)
      then have "j \<in> {a, b, d}" using dom i(1) j(1) by (meson not_le)
      then show "t \<in> S" using j by (auto simp: S_def)
    qed
    then have "set T = S" using cardT cardS finS by (simp add: card_subset_eq)
    with s disj show False by auto
  qed
  have "S \<subseteq> set T" using S_ys SD unfolding ys_TD by auto
  then have TS: "set T = S"
    using cardT cardS by (metis card_subset_eq List.finite_set)
  have snd_inj: "inj_on snd (set T)"
    unfolding TS S_def by (auto simp: inj_on_def)
  show "set (map snd (take 3 (sort_by (\<lambda>a b. js_sub (fst b) (fst a))
                                  (zip (map Fin c) [0..<length c])))) = {a, b, d}"
    using TS unfolding sorted_eq [unfolded xs_def] T_def [symmetric] S_def
    by (simp add: image_image) 
  show "distinct (map snd (take 3 (sort_by (\<lambda>a b. js_sub (fst b) (fst a))
                                  (zip (map Fin c) [0..<length c]))))"
    using distT snd_inj unfolding sorted_eq [unfolded xs_def] T_def [symmetric]
    by (simp add: distinct_map)
qed

lemma sort_three:
  fixes a b d :: nat
  assumes "set xs = {a, b, d}" "distinct xs" "a < b" "b < d"
  shows "sort xs = [a, b, d]"
proof -
  have "sort xs = sorted_list_of_set (set xs)"
    using assms(2) by (simp add: sorted_list_of_set_sort_remdups distinct_remdups_id)
  also have "\<dots> = [a, b, d]"
    unfolding assms(1) using assms(3,4)
    by (simp add: sorted_list_of_set.fold_insort_key.insert_remove insort_is_Cons)
  finally show ?thesis .
qed

lemma identifyChord_top3:
  fixes c :: "real list"
  assumes "length c = 12" "a < b" "b < d" "d < 12"
    and "\<forall>i\<in>{a, b, d}. \<forall>j<12. j \<notin> {a, b, d} \<longrightarrow> c ! j < c ! i"
  shows "identifyChord (map Fin c) = matchPatterns a [0, int b - int a, int d - int a]"
proof -
  have top3: "sort_by (\<lambda>a b. Fin (real a - real b))
                (map snd (take 3 (sort_by (\<lambda>a b. js_sub (fst b) (fst a))
                                    (zip (map Fin c) [0..<length c])))) = [a, b, d]"
    unfolding sort_by_index
    using top3_dominant [OF assms] assms(2,3) by (rule sort_three)
  have r: "js_rem (int a - int a + 12) 12 = 0"
          "js_rem (int b - int a + 12) 12 = int b - int a"
          "js_rem (int d - int a + 12) 12 = int d - int a"
    using assms(2-4) by (simp_all add: js_rem_def)
  show ?thesis
    unfolding identifyChord_def Let_def length_map top3 by (simp only: list.case list.map r)
qed


text \<open>
  Claim C8. On a chromagram of 12 finite values in which three pitch classes
  \<open>a < b < d\<close> are stronger than all the others, \<open>identifyChord\<close> takes \<open>a\<close> as the root and
  matches the intervals \<open>0\<close>, \<open>b - a\<close>, \<open>d - a\<close> against the patterns in their order. In
  particular, energy concentrated at the classes 0, 4, 7 gives \<open>C\<close>, and at 0, 3, 7
  gives \<open>Cm\<close>.
\<close>

theorem identifyChord_triads:
  fixes c :: "real list"
  assumes "length c = 12"
  shows "(\<forall>a b d. a < b \<and> b < d \<and> d < 12
             \<and> (\<forall>i\<in>{a, b, d}. \<forall>j<12. j \<notin> {a, b, d} \<longrightarrow> c ! j < c ! i)
           \<longrightarrow> identifyChord (map Fin c) = matchPatterns a [0, int b - int a, int d - int a])
       \<and> ((\<forall>i\<in>{0, 4, 7}. \<forall>j<12. j \<notin> {0, 4, 7} \<longrightarrow> c ! j < c ! i)
           \<longrightarrow> identifyChord (map Fin c) = ''C'')
       \<and> ((\<forall>i\<in>{0, 3, 7}. \<forall>j<12. j \<notin> {0, 3, 7} \<longrightarrow> c ! j < c ! i)
           \<longrightarrow> identifyChord (map Fin c) = ''Cm'')"
proof (intro conjI allI impI)
  fix a b d
  assume "a < b \<and> b < d \<and> d < 12
             \<and> (\<forall>i\<in>{a, b, d}. \<forall>j<12. j \<notin> {a, b, d} \<longrightarrow> c ! j < c ! i)"
  then show "identifyChord (map Fin c) = matchPatterns a [0, int b - int a, int d - int a]"
    using assms by (intro identifyChord_top3) auto
next
  assume "\<forall>i\<in>{0, 4, 7}. \<forall>j<12. j \<notin> {0, 4, 7} \<longrightarrow> c ! j < c ! i"
  then have "identifyChord (map Fin c) = matchPatterns 0 [0, int 4 - int 0, int 7 - int 0]"
    using assms by (intro identifyChord_top3) auto
  then show "identifyChord (map Fin c) = ''C''"
    by (simp add: matchPatterns_def noteName_def notes_table_def)
next
  assume "\<forall>i\<in>{0, 3, 7}. \<forall>j<12. j \<notin> {0, 3, 7} \<longrightarrow> c ! j < c ! i"
  then have "identifyChord (map Fin c) = matchPatterns 0 [0, int 3 - int 0, int 7 - int 0]"
    using assms by (intro identifyChord_top3) auto
  then show "identifyChord (map Fin c) = ''Cm''"
    by (simp add: matchPatterns_def noteName_def notes_table_def)
qed

theorem identifyChord_triads_witness:
  "identifyChord (map Fin [1, 0, 0, 0, 1, 0, 0, 1, 0, 0, 0, 0]) = ''C''
   \<and> identifyChord (map Fin [1, 0, 0, 1, 0, 0, 0, 1, 0, 0, 0, 0]) = ''Cm''"
proof
  have "\<forall>i\<in>{0, 4, 7}. \<forall>j<12. j \<notin> {0, 4, 7}
          \<longrightarrow> [1, 0, 0, 0, 1, 0, 0, 1, 0, 0, 0, 0 :: real] ! j
              < [1, 0, 0, 0, 1, 0, 0, 1, 0, 0, 0, 0] ! i"
    by (simp add: eval_nat_numeral All_less_Suc)
  then show "identifyChord (map Fin [1, 0, 0, 0, 1, 0, 0, 1, 0, 0, 0, 0]) = ''C''"
    using identifyChord_triads [of "[1, 0, 0, 0, 1, 0, 0, 1, 0, 0, 0, 0]"] by simp
next
  have "\<forall>i\<in>{0, 3, 7}. \<forall>j<12. j \<notin> {0, 3, 7}
          \<longrightarrow> [1, 0, 0, 1, 0, 0, 0, 1, 0, 0, 0, 0 :: real] ! j
              < [1, 0, 0, 1, 0, 0, 0, 1, 0, 0, 0, 0] ! i"
    by (simp add: eval_nat_numeral All_less_Suc)
  then show "identifyChord (map Fin [1, 0, 0, 1, 0, 0, 0, 1, 0, 0, 0, 0]) = ''Cm''"
    using identifyChord_triads [of "[1, 0, 0, 1, 0, 0, 0, 1, 0, 0, 0, 0]"] by simp
qed

section \<open>Chromagram: normalisation and the silent case\<close>

lemma chromagramFrames_short:
  "length audioData \<le> 4096 \<Longrightarrow> chromagramFrames audioData sampleRate 0 chromagram = chromagram"
  by (subst chromagramFrames.simps) simp

lemma calculateChromagram_short:
  "length audioData \<le> 4096 \<Longrightarrow> calculateChromagram audioData sampleRate = replicate 12 NaN"
  by (simp add: calculateChromagram_def chromagramFrames_short js_div_def)

lemma chromagramFramesFast_short:
  "maxSamples \<le> 2048 \<Longrightarrow>
     chromagramFramesFast audioData sampleRate maxSamples 0 chromagram = chromagram"
  by (subst chromagramFramesFast.simps) simp

lemma calculateChromagramFast_short:
  "length audioData \<le> 2048 \<Longrightarrow> calculateChromagramFast audioData sampleRate = replicate 12 (Fin 0)"
  by (simp add: calculateChromagramFast_def chromagramFramesFast_short min.coboundedI1)

lemma fft_nonneg: "x \<in> set (fft signal) \<Longrightarrow> 0 \<le> x"
  by (auto simp: fft_def Let_def)

lemma fftFast_nonneg: "x \<in> set (fftFast signal) \<Longrightarrow> 0 \<le> x"
  by (auto simp: fftFast_def Let_def)

lemma add_bin_length [simp]:
  "length (add_bin spectrum sampleRate fftSize bin chromagram) = length chromagram"
  by (simp add: add_bin_def Let_def)

lemma list_update_nonneg:
  fixes c :: "real list"
  assumes "\<forall>x\<in>set c. 0 \<le> x" "0 \<le> v"
  shows "\<forall>x\<in>set (c[k := v]). 0 \<le> x"
  using assms set_update_subset_insert [of c k v] by auto

lemma add_bin_nonneg:
  assumes "\<forall>x\<in>set chromagram. 0 \<le> x" "bin < length spectrum" "\<forall>x\<in>set spectrum. 0 \<le> x"
  shows "\<forall>x\<in>set (add_bin spectrum sampleRate fftSize bin chromagram). 0 \<le> x"
proof -
  have s: "0 \<le> spectrum ! bin" using assms(2,3) by simp
  have upd: "\<forall>x\<in>set (chromagram[k := chromagram ! k + spectrum ! bin]). 0 \<le> x" for k
  proof (cases "k < length chromagram")
    case True
    then have "0 \<le> chromagram ! k + spectrum ! bin" using assms(1) s by simp
    with assms(1) show ?thesis by (rule list_update_nonneg)
  next
    case False
    then have "chromagram[k := chromagram ! k + spectrum ! bin] = chromagram"
      by (simp add: list_update_beyond not_less)
    with assms(1) show ?thesis by simp
  qed
  show ?thesis
    using assms(1) upd by (simp add: add_bin_def Let_def)
qed

lemma add_frame_length [simp]:
  "length (add_frame spectrum sampleRate fftSize chromagram) = length chromagram"
proof -
  have "length (fold (add_bin spectrum sampleRate fftSize) bins chromagram) = length chromagram"
    for bins
    by (induction bins arbitrary: chromagram) simp_all
  then show ?thesis by (simp add: add_frame_def)
qed

lemma fold_add_bin_nonneg:
  assumes "\<forall>x\<in>set spectrum. 0 \<le> x"
  shows "(\<forall>b\<in>set bins. b < length spectrum) \<Longrightarrow> (\<forall>x\<in>set chromagram. 0 \<le> x) \<Longrightarrow>
           \<forall>x\<in>set (fold (add_bin spectrum sampleRate fftSize) bins chromagram). 0 \<le> x"
proof (induction bins arbitrary: chromagram)
  case Nil
  then show ?case by simp
next
  case (Cons b bins)
  have "\<forall>x\<in>set (add_bin spectrum sampleRate fftSize b chromagram). 0 \<le> x"
    using Cons.prems assms by (intro add_bin_nonneg) auto
  then show ?case
    using Cons.prems by (simp add: Cons.IH)
qed

lemma add_frame_nonneg:
  assumes "\<forall>x\<in>set chromagram. 0 \<le> x" "\<forall>x\<in>set spectrum. 0 \<le> x"
  shows "\<forall>x\<in>set (add_frame spectrum sampleRate fftSize chromagram). 0 \<le> x"
  unfolding add_frame_def
  using assms(2) _ assms(1) by (rule fold_add_bin_nonneg) simp

lemma chromagramFramesFast_inv:
  assumes "length chromagram = 12" "\<forall>x\<in>set chromagram. 0 \<le> x"
  shows "length (chromagramFramesFast audioData sampleRate maxSamples i chromagram) = 12
       \<and> (\<forall>x\<in>set (chromagramFramesFast audioData sampleRate maxSamples i chromagram). 0 \<le> x)"
  using assms
proof (induction audioData sampleRate maxSamples i chromagram rule: chromagramFramesFast.induct)
  case (1 audioData sampleRate maxSamples i chromagram)
  show ?case
  proof (cases "i + 2048 < maxSamples")
    case True
    let ?c = "add_frame (fftFast (take 2048 (drop i audioData))) sampleRate 2048 chromagram"
    have "length ?c = 12" using "1.prems" by simp
    moreover have "\<forall>x\<in>set ?c. 0 \<le> x"
      using "1.prems" by (intro add_frame_nonneg) (auto dest: fftFast_nonneg)
    ultimately show ?thesis
      using "1.IH" [OF True] True by (subst (1 2) chromagramFramesFast.simps) simp
  next
    case False
    with "1.prems" show ?thesis by (subst (1 2) chromagramFramesFast.simps) simp
  qed
qed

lemma calculateChromagramFast_normalised:
  "\<exists>c. calculateChromagramFast audioData sampleRate = map Fin c \<and> length c = 12
       \<and> (\<forall>x\<in>set c. 0 \<le> x) \<and> (c = replicate 12 0 \<or> Max (set c) = 1)"
proof -
  define c where "c = chromagramFramesFast audioData sampleRate
                        (min (length audioData) (2 * sampleRate)) 0 (replicate 12 0)"
  have inv: "length c = 12" "\<forall>x\<in>set c. 0 \<le> x"
    using chromagramFramesFast_inv [of "replicate 12 0" audioData sampleRate
            "min (length audioData) (2 * sampleRate)" 0]
    by (simp_all add: c_def)
  then have ne: "set c \<noteq> {}" by auto
  show ?thesis
  proof (cases "0 < Max (set c)")
    case True
    define n where "n = map (\<lambda>x. x / Max (set c)) c"
    have "calculateChromagramFast audioData sampleRate = map Fin n"
      using True by (simp add: calculateChromagramFast_def Let_def js_div_def n_def flip: c_def)
    moreover have "length n = 12" by (simp add: n_def inv)
    moreover have "\<forall>x\<in>set n. 0 \<le> x" using inv(2) True by (auto simp: n_def)
    moreover have "Max (set n) = 1"
    proof (rule Max_eqI)
      show "finite (set n)" by simp
      show "y \<le> 1" if "y \<in> set n" for y
        using that True by (auto simp: n_def)
      have "Max (set c) \<in> set c" using ne by (intro Max_in) auto
      then have "Max (set c) / Max (set c) \<in> set n" unfolding n_def by (auto simp: image_iff)
      then show "1 \<in> set n" using True by simp
    qed
    ultimately show ?thesis by blast
  next
    case False
    have "x = 0" if "x \<in> set c" for x
    proof -
      have "x \<le> Max (set c)" using that by simp
      moreover have "0 \<le> x" using inv(2) that by simp
      ultimately show ?thesis using False by linarith
    qed
    then have "c = replicate 12 0"
      using inv(1) by (intro replicate_eqI) auto
    moreover have "calculateChromagramFast audioData sampleRate = map Fin c"
      using False by (simp add: calculateChromagramFast_def Let_def flip: c_def)
    ultimately show ?thesis using inv by blast
  qed
qed

lemma sum_list_zeros: "(\<And>x. x \<in> set xs \<Longrightarrow> f x = (0::real)) \<Longrightarrow> sum_list (map f xs) = 0"
  by (induction xs) simp_all

lemma fft_silence: "fft (replicate n 0) = replicate n 0"
proof -
  have re: "sum_list (map (\<lambda>i. replicate n (0::real) ! i * cos (- 2 * pi * real k * real i / real n))
                       [0..<n]) = 0" for k
    by (rule sum_list_zeros) simp
  have im: "sum_list (map (\<lambda>i. replicate n (0::real) ! i * sin (- 2 * pi * real k * real i / real n))
                       [0..<n]) = 0" for k
    by (rule sum_list_zeros) simp
  show ?thesis
    unfolding fft_def Let_def length_replicate re im
    by (rule nth_equalityI) simp_all
qed

lemma add_bin_silence:
  "bin < n \<Longrightarrow> add_bin (replicate n 0) sampleRate fftSize bin chromagram = chromagram"
  by (simp add: add_bin_def Let_def)

lemma add_frame_silence: "add_frame (replicate n 0) sampleRate fftSize chromagram = chromagram"
proof -
  have "fold (add_bin (replicate n 0) sampleRate fftSize) bins chromagram = chromagram"
    if "\<forall>b\<in>set bins. b < n" for bins
    using that by (induction bins) (simp_all add: add_bin_silence)
  then show ?thesis by (simp add: add_frame_def)
qed

lemma chromagramFrames_silence:
  "chromagramFrames (replicate n 0) sampleRate i chromagram = chromagram"
proof (induction "replicate n (0::real)" sampleRate i chromagram rule: chromagramFrames.induct)
  case (1 sampleRate i chromagram)
  show ?case
  proof (cases "i + 4096 < n")
    case True
    then show ?thesis
      using "1.hyps" by (subst chromagramFrames.simps) (simp add: fft_silence add_frame_silence)
  next
    case False
    then show ?thesis by (subst chromagramFrames.simps) simp
  qed
qed

lemma calculateChromagram_silence:
  "calculateChromagram (replicate n 0) sampleRate = replicate 12 NaN"
  by (simp add: calculateChromagram_def chromagramFrames_silence js_div_def)

lemma fftFast_silence: "fftFast (replicate n 0) = replicate (n div 2) 0"
proof -
  have re: "sum_list (map (\<lambda>i. replicate n (0::real) ! i * cos (- 2 * pi * real k / real n * real i))
                       [0..<n]) = 0" for k
    by (rule sum_list_zeros) simp
  have im: "sum_list (map (\<lambda>i. replicate n (0::real) ! i * sin (- 2 * pi * real k / real n * real i))
                       [0..<n]) = 0" for k
    by (rule sum_list_zeros) simp
  show ?thesis
    unfolding fftFast_def Let_def length_replicate re im
    by (rule nth_equalityI) simp_all
qed

lemma chromagramFramesFast_silence:
  "chromagramFramesFast (replicate n 0) sampleRate maxSamples i chromagram = chromagram"
proof (induction "replicate n (0::real)" sampleRate maxSamples i chromagram
        rule: chromagramFramesFast.induct)
  case (1 sampleRate maxSamples i chromagram)
  show ?case
  proof (cases "i + 2048 < maxSamples")
    case True
    then show ?thesis
      using "1.hyps"
      by (subst chromagramFramesFast.simps) (simp add: fftFast_silence add_frame_silence)
  next
    case False
    then show ?thesis by (subst chromagramFramesFast.simps) simp
  qed
qed

lemma calculateChromagramFast_silence:
  "calculateChromagramFast (replicate n 0) sampleRate = replicate 12 (Fin 0)"
  by (simp add: calculateChromagramFast_def chromagramFramesFast_silence)

text \<open>
  Claim C2. The chromagram has 12 non-negative values with maximum 1, or is all zero for
  silent input, without dividing by zero. \<open>calculateChromagramFast\<close> does that for every
  input (lemma \<open>calculateChromagramFast_normalised\<close>). \<open>calculateChromagram\<close> has no guard:
  on one second of silence at 44100 Hz it divides \<open>0 / 0\<close> twelve times and returns
  twelve \<open>NaN\<close>.
\<close>

theorem calculateChromagram_on_silence:
  "calculateChromagram (replicate 44100 0) 44100 = replicate 12 NaN
   \<and> calculateChromagramFast (replicate 44100 0) 44100 = replicate 12 (Fin 0)"
  by (simp add: calculateChromagram_silence calculateChromagramFast_silence)

section \<open>Chord detection: the fallback path and the worker path\<close>





















lemma collapse_repeats_labels:
  "map chord (collapse_repeats es) = remdups_adj (map chord es)"
  by (induction es rule: collapse_repeats.induct) auto









end
